theory Spec2Isabelle
  imports Main "HOL-Library.Word" "HOL-Library.AList"
begin

section \<open>modem-kick: a watchdog that power-cycles modems stuck in idle/denied\<close>

text \<open>
  A shallow embedding of \<^verbatim>\<open>src/modem-kick.c\<close>. The program is a single-threaded GLib
  main-loop client: every function of the source runs to completion as one handler.
  The state the handlers share (the registry, the per-modem contexts attached to the
  modem objects, the pending timeout sources, the asynchronous calls in flight and the
  cancellables) is one record, passed explicitly. A failed \<^verbatim>\<open>g_assert\<close> and a
  dereference of a dead pointer are values of the type \<open>Abort\<close>.
\<close>

subsection \<open>Build configuration\<close>

text \<open>The two builds of the source (\<^verbatim>\<open>#ifdef DEBUG\<close>) are told apart by a flag.\<close>

definition RESET_POLL_SECONDS :: "bool \<Rightarrow> int" where
  "RESET_POLL_SECONDS dbg = (if dbg then 15 else 300)"

definition KICK_INTERVAL_SECONDS :: "bool \<Rightarrow> int" where
  "KICK_INTERVAL_SECONDS dbg = (if dbg then 60 else 605)"

definition G_USEC_PER_SEC :: int where
  "G_USEC_PER_SEC = 1000000"

subsection \<open>Data\<close>

datatype OpState =
    MODEM_OP_STATE_NONE
  | MODEM_OP_STATE_DISABLE
  | MODEM_OP_STATE_LOW_POWER
  | MODEM_OP_STATE_ENABLE
  | MODEM_OP_STATE_FINISH

text \<open>The registration states of libmm-glib (the enum is declared in its headers).\<close>

datatype MMModem3gppRegistrationState =
    MM_MODEM_3GPP_REGISTRATION_STATE_IDLE
  | MM_MODEM_3GPP_REGISTRATION_STATE_HOME
  | MM_MODEM_3GPP_REGISTRATION_STATE_SEARCHING
  | MM_MODEM_3GPP_REGISTRATION_STATE_DENIED
  | MM_MODEM_3GPP_REGISTRATION_STATE_UNKNOWN
  | MM_MODEM_3GPP_REGISTRATION_STATE_ROAMING
  | MM_MODEM_3GPP_REGISTRATION_STATE_HOME_SMS_ONLY
  | MM_MODEM_3GPP_REGISTRATION_STATE_ROAMING_SMS_ONLY
  | MM_MODEM_3GPP_REGISTRATION_STATE_EMERGENCY_ONLY
  | MM_MODEM_3GPP_REGISTRATION_STATE_HOME_CSFB_NOT_PREFERRED
  | MM_MODEM_3GPP_REGISTRATION_STATE_ROAMING_CSFB_NOT_PREFERRED
  | MM_MODEM_3GPP_REGISTRATION_STATE_ATTACHED_RLOS

datatype Abort = AssertionFailed | InvalidPointer

type_synonym addr = nat

text \<open>
  \<^verbatim>\<open>struct ModemContext\<close>. The fields \<^verbatim>\<open>modem\<close> and \<^verbatim>\<open>modem_3gpp\<close> are borrowed pointers
  to the two interfaces of the object the context is attached to; here the interfaces
  are fields of that object and are reached through it. \<^verbatim>\<open>timestamp\<close> is a \<^verbatim>\<open>gint64\<close>
  holding a reading of the monotonic clock in microseconds (or 0); readings are
  non-negative and far below \<open>2^63\<close>, so differences of two of them do not wrap and
  the field is an \<open>int\<close>. \<^verbatim>\<open>tries\<close> is a \<^verbatim>\<open>guint\<close> that is incremented, so it is a
  32-bit word. \<^verbatim>\<open>next_id\<close> holds a source id or 0 and is only assigned and tested.
  \<^verbatim>\<open>cancellable\<close> is a pointer that may be NULL.
\<close>

record ModemContext =
  path :: string
  reg_state_changed_id :: nat
  timestamp :: int
  cancellable :: "nat option"
  op_state :: OpState
  next_id :: nat
  tries :: "32 word"

record MMModem =
  primary_port :: "string option"

text \<open>
  The 3GPP interface of a modem object: its registration state property and the ids of
  the handlers connected to \<^verbatim>\<open>notify::registration-state\<close>. The program connects only
  \<^verbatim>\<open>modem_registration_changed\<close>, with the owning object as user data.
\<close>

record MMModem3gpp =
  registration_state :: MMModem3gppRegistrationState
  notify_handlers :: "nat list"

text \<open>
  An \<^verbatim>\<open>MMObject\<close> as the program sees it: its path, the two interfaces it may carry
  (\<^verbatim>\<open>mm_object_peek_modem\<close>, \<^verbatim>\<open>mm_object_peek_modem_3gpp\<close>), the GObject reference count
  and the data attached under the key \<^verbatim>\<open>"modem-context"\<close>.
\<close>

record MMObject =
  object_path :: string
  modem_iface :: "MMModem option"
  modem_3gpp_iface :: "MMModem3gpp option"
  ref_count :: nat
  modem_context :: "ModemContext option"

datatype CallKind = CALL_DISABLE | CALL_SET_POWER_STATE_LOW | CALL_ENABLE

text \<open>An asynchronous call in flight: which request, its cancellable, its user data.\<close>

record AsyncCall =
  call_kind :: CallKind
  call_cancellable :: "nat option"
  call_data :: addr

text \<open>
  The state of the process.
  \<^item> \<open>modems\<close> is \<^verbatim>\<open>ctx->modems\<close>, the hash table from path to object (the list order is
    the iteration order of the table, which GLib leaves unspecified);
  \<^item> \<open>objects\<close> are the live GObjects, by address;
  \<^item> \<open>sources\<close> are the pending 10-second timeout sources, each with the object given to
    \<^verbatim>\<open>modem_op_state_run\<close>, and \<open>next_source\<close> is the main context's id counter;
  \<^item> \<open>calls\<close> are the requests sent to ModemManager whose callback has not yet run;
  \<^item> \<open>cancellables\<close> has one flag per GCancellable ever created: cancelled or not;
  \<^item> \<open>monotonic_time\<close> is what \<^verbatim>\<open>g_get_monotonic_time\<close> returns.
\<close>

record World =
  modems :: "(string \<times> addr) list"
  objects :: "addr \<rightharpoonup> MMObject"
  sources :: "(nat \<times> addr) list"
  next_source :: nat
  calls :: "AsyncCall list"
  cancellables :: "bool list"
  monotonic_time :: int

subsection \<open>The GLib and libmm-glib operations the program calls\<close>

definition bindA :: "Abort + 'a \<Rightarrow> ('a \<Rightarrow> Abort + 'b) \<Rightarrow> Abort + 'b" where
  "bindA m f = (case m of Inl e \<Rightarrow> Inl e | Inr x \<Rightarrow> f x)"

definition g_get_monotonic_time :: "World \<Rightarrow> int" where
  "g_get_monotonic_time w = monotonic_time w"

definition g_timeout_add_seconds :: "addr \<Rightarrow> World \<Rightarrow> nat \<times> World" where
  "g_timeout_add_seconds data w =
     (next_source w,
      w\<lparr>sources := sources w @ [(next_source w, data)], next_source := Suc (next_source w)\<rparr>)"

definition g_source_remove :: "nat \<Rightarrow> World \<Rightarrow> World" where
  "g_source_remove tag w = w\<lparr>sources := AList.delete tag (sources w)\<rparr>"

definition g_cancellable_new :: "World \<Rightarrow> nat \<times> World" where
  "g_cancellable_new w =
     (length (cancellables w), w\<lparr>cancellables := cancellables w @ [False]\<rparr>)"

text \<open>\<^verbatim>\<open>g_cancellable_cancel (NULL)\<close> does nothing.\<close>

definition g_cancellable_cancel :: "nat option \<Rightarrow> World \<Rightarrow> World" where
  "g_cancellable_cancel c w =
     (case c of None \<Rightarrow> w
      | Some i \<Rightarrow> w\<lparr>cancellables := (cancellables w)[i := True]\<rparr>)"

definition g_cancellable_is_cancelled :: "nat option \<Rightarrow> World \<Rightarrow> bool" where
  "g_cancellable_is_cancelled c w =
     (case c of None \<Rightarrow> False
      | Some i \<Rightarrow> i < length (cancellables w) \<and> cancellables w ! i)"

definition get_modem_context :: "addr \<Rightarrow> World \<Rightarrow> ModemContext option" where
  "get_modem_context obj w =
     (case objects w obj of None \<Rightarrow> None | Some ob \<Rightarrow> modem_context ob)"

text \<open>Writing through a \<^verbatim>\<open>ModemContext *\<close> obtained from \<open>get_modem_context\<close>.\<close>

definition set_modem_context :: "addr \<Rightarrow> ModemContext \<Rightarrow> World \<Rightarrow> World" where
  "set_modem_context obj modem_ctx w =
     (case objects w obj of None \<Rightarrow> w
      | Some ob \<Rightarrow> w\<lparr>objects := (objects w)(obj \<mapsto> ob\<lparr>modem_context := Some modem_ctx\<rparr>)\<rparr>)"

text \<open>Reading and writing the reference count of an object.\<close>

definition ref_count_of :: "addr \<Rightarrow> World \<Rightarrow> nat" where
  "ref_count_of obj w = (case objects w obj of None \<Rightarrow> 0 | Some ob \<Rightarrow> ref_count ob)"

definition set_ref_count :: "addr \<Rightarrow> nat \<Rightarrow> World \<Rightarrow> World" where
  "set_ref_count obj n w =
     (case objects w obj of None \<Rightarrow> w
      | Some ob \<Rightarrow> w\<lparr>objects := (objects w)(obj \<mapsto> ob\<lparr>ref_count := n\<rparr>)\<rparr>)"

definition g_object_ref :: "addr \<Rightarrow> World \<Rightarrow> World" where
  "g_object_ref obj w = set_ref_count obj (Suc (ref_count_of obj w)) w"

subsection \<open>Cancelling an operation, freeing a context\<close>

definition modem_context_cancel_op :: "ModemContext \<Rightarrow> World \<Rightarrow> ModemContext \<times> World" where
  "modem_context_cancel_op modem_ctx w =
     (let w1 = g_cancellable_cancel (cancellable modem_ctx) w;
          w2 = (if next_id modem_ctx \<noteq> 0 then g_source_remove (next_id modem_ctx) w1 else w1)
      in (modem_ctx\<lparr>op_state := MODEM_OP_STATE_NONE, cancellable := None,
                    next_id := 0, tries := 0\<rparr>, w2))"

text \<open>The context's memory is released; what remains is the effect on the main loop.\<close>

definition modem_context_free :: "ModemContext \<Rightarrow> World \<Rightarrow> World" where
  "modem_context_free modem_ctx w = snd (modem_context_cancel_op modem_ctx w)"

text \<open>
  The last reference to an object is gone: the destroy notification of its
  \<^verbatim>\<open>"modem-context"\<close> data (\<open>modem_context_free\<close>) runs, and the object with its
  interfaces and their signal handlers ceases to exist.
\<close>

definition g_object_finalize :: "addr \<Rightarrow> World \<Rightarrow> World" where
  "g_object_finalize obj w =
     (let w1 = (case get_modem_context obj w of None \<Rightarrow> w
                | Some modem_ctx \<Rightarrow> modem_context_free modem_ctx w)
      in w1\<lparr>objects := (objects w1)(obj := None)\<rparr>)"

definition g_object_unref :: "addr \<Rightarrow> World \<Rightarrow> Abort + World" where
  "g_object_unref obj w =
     (if objects w obj = None then Inl InvalidPointer
      else if ref_count_of obj w > 1
           then Inr (set_ref_count obj (ref_count_of obj w - 1) w)
           else Inr (g_object_finalize obj w))"

subsection \<open>The registration state property and its notification\<close>

definition registration_state_of :: "addr \<Rightarrow> World \<Rightarrow> MMModem3gppRegistrationState option" where
  "registration_state_of obj w =
     (case objects w obj of None \<Rightarrow> None
      | Some ob \<Rightarrow> map_option registration_state (modem_3gpp_iface ob))"

definition set_registration_state ::
  "addr \<Rightarrow> MMModem3gppRegistrationState \<Rightarrow> World \<Rightarrow> World" where
  "set_registration_state obj st w =
     (case objects w obj of None \<Rightarrow> w
      | Some ob \<Rightarrow>
     (case modem_3gpp_iface ob of None \<Rightarrow> w
      | Some m \<Rightarrow>
          w\<lparr>objects := (objects w)(obj \<mapsto>
               ob\<lparr>modem_3gpp_iface := Some (m\<lparr>registration_state := st\<rparr>)\<rparr>)\<rparr>))"

definition handlers_of :: "addr \<Rightarrow> World \<Rightarrow> nat list" where
  "handlers_of obj w =
     (case objects w obj of None \<Rightarrow> []
      | Some ob \<Rightarrow> (case modem_3gpp_iface ob of None \<Rightarrow> [] | Some m \<Rightarrow> notify_handlers m))"

text \<open>
  \<^verbatim>\<open>g_signal_connect (modem_3gpp_iface, "notify::registration-state", ...)\<close>: one more
  handler on the interface of the object; the id returned is positive.
\<close>

definition g_signal_connect :: "addr \<Rightarrow> World \<Rightarrow> nat \<times> World" where
  "g_signal_connect obj w =
     (let handler = Suc (length (handlers_of obj w))
      in (handler,
          (case objects w obj of None \<Rightarrow> w
           | Some ob \<Rightarrow>
          (case modem_3gpp_iface ob of None \<Rightarrow> w
           | Some m \<Rightarrow>
               w\<lparr>objects := (objects w)(obj \<mapsto>
                    ob\<lparr>modem_3gpp_iface :=
                         Some (m\<lparr>notify_handlers := notify_handlers m @ [handler]\<rparr>)\<rparr>)\<rparr>))))"

text \<open>
  \<^verbatim>\<open>g_object_set_data_full (obj, "modem-context", modem_ctx, modem_context_free)\<close>: data
  already attached under the key is destroyed by its own destroy notification.
\<close>

definition g_object_set_data_full :: "addr \<Rightarrow> ModemContext \<Rightarrow> World \<Rightarrow> World" where
  "g_object_set_data_full obj modem_ctx w =
     set_modem_context obj modem_ctx
       (case get_modem_context obj w of None \<Rightarrow> w
        | Some old_ctx \<Rightarrow> modem_context_free old_ctx w)"

subsection \<open>The registration monitor\<close>

definition modem_registration_changed :: "addr \<Rightarrow> World \<Rightarrow> Abort + World" where
  "modem_registration_changed modem_object w =
     (case objects w modem_object of None \<Rightarrow> Inl InvalidPointer
      | Some ob \<Rightarrow>
     (case modem_context ob of None \<Rightarrow> Inl InvalidPointer
      | Some modem_ctx \<Rightarrow>
     (case modem_3gpp_iface ob of None \<Rightarrow> Inl InvalidPointer
      | Some modem_3gpp \<Rightarrow>
          let reg_state = registration_state modem_3gpp in
          if reg_state = MM_MODEM_3GPP_REGISTRATION_STATE_IDLE
             \<or> reg_state = MM_MODEM_3GPP_REGISTRATION_STATE_DENIED
          then (if timestamp modem_ctx = 0
                then Inr (set_modem_context modem_object
                            (modem_ctx\<lparr>timestamp := g_get_monotonic_time w\<rparr>) w)
                else Inr w)
          else Inr (set_modem_context modem_object (modem_ctx\<lparr>timestamp := 0\<rparr>) w))))"

subsection \<open>The registry\<close>

definition modem_context_new :: "MMObject \<Rightarrow> ModemContext" where
  "modem_context_new ob =
     \<lparr>path = object_path ob, reg_state_changed_id = 0, timestamp = 0, cancellable = None,
      op_state = MODEM_OP_STATE_NONE, next_id = 0, tries = 0\<rparr>"

text \<open>
  \<^verbatim>\<open>g_hash_table_insert\<close> on a table with destroy functions: an existing entry keeps its
  place and its old value is unreferenced.
\<close>

definition g_hash_table_insert :: "string \<Rightarrow> addr \<Rightarrow> World \<Rightarrow> Abort + World" where
  "g_hash_table_insert key val w =
     (case map_of (modems w) key of
        None \<Rightarrow> Inr (w\<lparr>modems := modems w @ [(key, val)]\<rparr>)
      | Some old \<Rightarrow> g_object_unref old (w\<lparr>modems := AList.update key val (modems w)\<rparr>))"

definition g_hash_table_remove :: "string \<Rightarrow> World \<Rightarrow> Abort + World" where
  "g_hash_table_remove key w =
     (case map_of (modems w) key of
        None \<Rightarrow> Inr w
      | Some old \<Rightarrow> g_object_unref old (w\<lparr>modems := AList.delete key (modems w)\<rparr>))"

definition handle_object_added :: "addr \<Rightarrow> World \<Rightarrow> Abort + World" where
  "handle_object_added modem_object w =
     (case objects w modem_object of None \<Rightarrow> Inl InvalidPointer
      | Some ob \<Rightarrow>
     (case modem_iface ob of None \<Rightarrow> Inr w
      | Some modem_if \<Rightarrow>
     (case primary_port modem_if of None \<Rightarrow> Inr w
      | Some port \<Rightarrow>
     (case modem_3gpp_iface ob of None \<Rightarrow> Inr w
      | Some modem_3gpp \<Rightarrow>
          let modem_ctx = modem_context_new ob;
              w1 = g_object_set_data_full modem_object modem_ctx w;
              (handler, w2) = g_signal_connect modem_object w1;
              w3 = set_modem_context modem_object
                     (modem_ctx\<lparr>reg_state_changed_id := handler\<rparr>) w2
          in bindA (modem_registration_changed modem_object w3)
               (\<lambda>w4. g_hash_table_insert (object_path ob) modem_object
                       (g_object_ref modem_object w4))))))"

definition handle_object_removed :: "addr \<Rightarrow> World \<Rightarrow> Abort + World" where
  "handle_object_removed modem_object w =
     (case objects w modem_object of None \<Rightarrow> Inl InvalidPointer
      | Some ob \<Rightarrow> g_hash_table_remove (object_path ob) w)"

subsection \<open>The kick state machine\<close>

definition modem_schedule_op_state :: "addr \<Rightarrow> OpState \<Rightarrow> World \<Rightarrow> Abort + World" where
  "modem_schedule_op_state modem_object new_state w =
     (case get_modem_context modem_object w of None \<Rightarrow> Inl InvalidPointer
      | Some modem_ctx \<Rightarrow>
          if next_id modem_ctx \<noteq> 0 then Inl AssertionFailed
          else let (tag, w1) = g_timeout_add_seconds modem_object w
               in Inr (set_modem_context modem_object
                         (modem_ctx\<lparr>op_state := new_state, next_id := tag\<rparr>) w1))"

definition modem_schedule_retry_op_state :: "addr \<Rightarrow> World \<Rightarrow> Abort + World" where
  "modem_schedule_retry_op_state modem_object w =
     (case get_modem_context modem_object w of None \<Rightarrow> Inl InvalidPointer
      | Some ctx0 \<Rightarrow>
          let modem_ctx = ctx0\<lparr>tries := tries ctx0 + 1\<rparr>;
              w1 = set_modem_context modem_object modem_ctx w
          in if tries modem_ctx > 3
             then modem_schedule_op_state modem_object MODEM_OP_STATE_FINISH w1
             else modem_schedule_op_state modem_object (op_state modem_ctx) w1)"

definition modem_enable_ready :: "bool \<Rightarrow> addr \<Rightarrow> World \<Rightarrow> Abort + World" where
  "modem_enable_ready finish_ok modem_object w =
     bindA (if \<not> finish_ok then modem_schedule_retry_op_state modem_object w
            else modem_schedule_op_state modem_object MODEM_OP_STATE_FINISH w)
       (g_object_unref modem_object)"

definition set_power_state_low_ready :: "bool \<Rightarrow> addr \<Rightarrow> World \<Rightarrow> Abort + World" where
  "set_power_state_low_ready finish_ok modem_object w =
     bindA (if \<not> finish_ok then modem_schedule_retry_op_state modem_object w
            else modem_schedule_op_state modem_object MODEM_OP_STATE_ENABLE w)
       (g_object_unref modem_object)"

definition modem_disable_ready :: "bool \<Rightarrow> addr \<Rightarrow> World \<Rightarrow> Abort + World" where
  "modem_disable_ready finish_ok modem_object w =
     (let next_state = MODEM_OP_STATE_LOW_POWER
      in bindA (if \<not> finish_ok then modem_schedule_retry_op_state modem_object w
                else modem_schedule_op_state modem_object next_state w)
           (g_object_unref modem_object))"

text \<open>
  Sending a request (\<^verbatim>\<open>mm_modem_disable\<close>, \<^verbatim>\<open>mm_modem_set_power_state\<close>, \<^verbatim>\<open>mm_modem_enable\<close>):
  the user data is \<^verbatim>\<open>g_object_ref (modem_object)\<close>, and the call stays in flight until
  its callback runs.
\<close>

definition mm_modem_call :: "CallKind \<Rightarrow> nat option \<Rightarrow> addr \<Rightarrow> World \<Rightarrow> World" where
  "mm_modem_call kind c modem_object w =
     (let w1 = g_object_ref modem_object w
      in w1\<lparr>calls := calls w1 @
                [\<lparr>call_kind = kind, call_cancellable = c, call_data = modem_object\<rparr>]\<rparr>)"

definition modem_op_state_run :: "addr \<Rightarrow> World \<Rightarrow> Abort + World" where
  "modem_op_state_run modem_object w =
     (case get_modem_context modem_object w of None \<Rightarrow> Inl InvalidPointer
      | Some ctx0 \<Rightarrow>
          let modem_ctx = ctx0\<lparr>next_id := 0\<rparr>;
              w1 = set_modem_context modem_object modem_ctx w
          in (case op_state modem_ctx of
                MODEM_OP_STATE_NONE \<Rightarrow>
                  modem_schedule_op_state modem_object MODEM_OP_STATE_DISABLE w1
              | MODEM_OP_STATE_DISABLE \<Rightarrow>
                  Inr (mm_modem_call CALL_DISABLE (cancellable modem_ctx) modem_object w1)
              | MODEM_OP_STATE_LOW_POWER \<Rightarrow>
                  Inr (mm_modem_call CALL_SET_POWER_STATE_LOW (cancellable modem_ctx)
                         modem_object w1)
              | MODEM_OP_STATE_ENABLE \<Rightarrow>
                  Inr (mm_modem_call CALL_ENABLE (cancellable modem_ctx) modem_object w1)
              | MODEM_OP_STATE_FINISH \<Rightarrow>
                  (let (ctx1, w2) = modem_context_cancel_op modem_ctx w1
                   in Inr (set_modem_context modem_object ctx1 w2))))"

subsection \<open>The periodic sweep\<close>

text \<open>The body of the \<^verbatim>\<open>while\<close> loop of \<^verbatim>\<open>reset_poll_cb\<close>, for one value of the table.\<close>

definition reset_poll_modem :: "bool \<Rightarrow> addr \<Rightarrow> World \<Rightarrow> Abort + World" where
  "reset_poll_modem dbg modem_object w =
     (case get_modem_context modem_object w of None \<Rightarrow> Inl InvalidPointer
      | Some ctx0 \<Rightarrow>
          let now = g_get_monotonic_time w;
              modem_ctx = (if dbg then ctx0\<lparr>timestamp := now - 700 * G_USEC_PER_SEC\<rparr>
                           else ctx0);
              w0 = (if dbg then set_modem_context modem_object modem_ctx w else w)
          in if timestamp modem_ctx = 0 then Inr w0
             else let time_failed = now - timestamp modem_ctx
                  in if time_failed > KICK_INTERVAL_SECONDS dbg * G_USEC_PER_SEC
                     then (let (ctx1, w1) = modem_context_cancel_op modem_ctx w0;
                               (c, w2) = g_cancellable_new w1;
                               w3 = set_modem_context modem_object
                                      (ctx1\<lparr>cancellable := Some c\<rparr>) w2
                           in modem_op_state_run modem_object w3)
                     else Inr w0)"

fun reset_poll_loop :: "bool \<Rightarrow> (string \<times> addr) list \<Rightarrow> World \<Rightarrow> Abort + World" where
  "reset_poll_loop dbg [] w = Inr w"
| "reset_poll_loop dbg (kv # rest) w =
     bindA (reset_poll_modem dbg (snd kv) w) (reset_poll_loop dbg rest)"

definition reset_poll_cb :: "bool \<Rightarrow> World \<Rightarrow> Abort + World" where
  "reset_poll_cb dbg w = reset_poll_loop dbg (modems w) w"

subsection \<open>The main loop: what the environment makes the program run\<close>

text \<open>
  A pending timeout source fires: its callback \<open>modem_op_state_run\<close> runs on its user
  data and, as the callback returns \<^verbatim>\<open>G_SOURCE_REMOVE\<close>, the source is destroyed. A tag
  that is not pending has nothing to dispatch.
\<close>

definition timeout_dispatch :: "nat \<Rightarrow> World \<Rightarrow> Abort + World" where
  "timeout_dispatch tag w =
     (case map_of (sources w) tag of None \<Rightarrow> Inr w
      | Some data \<Rightarrow> bindA (modem_op_state_run data w) (\<lambda>w'. Inr (g_source_remove tag w')))"

text \<open>
  The \<open>n\<close>-th call in flight completes, ModemManager having answered \<open>ok\<close>. The \<^verbatim>\<open>_finish\<close>
  function of a GDBus call reports an error when the request failed or when the call's
  cancellable has been cancelled; the callback registered for the request then runs.
\<close>

definition call_finished :: "nat \<Rightarrow> bool \<Rightarrow> World \<Rightarrow> Abort + World" where
  "call_finished n ok w =
     (if n \<ge> length (calls w) then Inr w
      else let call = calls w ! n;
               w1 = w\<lparr>calls := take n (calls w) @ drop (Suc n) (calls w)\<rparr>;
               finish_ok = (ok \<and> \<not> g_cancellable_is_cancelled (call_cancellable call) w)
           in (case call_kind call of
                 CALL_DISABLE \<Rightarrow> modem_disable_ready finish_ok (call_data call) w1
               | CALL_SET_POWER_STATE_LOW \<Rightarrow>
                   set_power_state_low_ready finish_ok (call_data call) w1
               | CALL_ENABLE \<Rightarrow> modem_enable_ready finish_ok (call_data call) w1))"

text \<open>
  The registration state of a modem changes: the property takes its new value and every
  handler connected to the notification runs.
\<close>

fun run_notify_handlers :: "nat list \<Rightarrow> addr \<Rightarrow> World \<Rightarrow> Abort + World" where
  "run_notify_handlers [] modem_object w = Inr w"
| "run_notify_handlers (h # hs) modem_object w =
     bindA (modem_registration_changed modem_object w) (run_notify_handlers hs modem_object)"

definition registration_state_notify ::
  "addr \<Rightarrow> MMModem3gppRegistrationState \<Rightarrow> World \<Rightarrow> Abort + World" where
  "registration_state_notify modem_object st w =
     run_notify_handlers (handlers_of modem_object w) modem_object
       (set_registration_state modem_object st w)"

text \<open>
  The object manager client announces the removal of an object: it emits
  \<^verbatim>\<open>object-removed\<close> while holding a reference of its own and drops it afterwards.
\<close>

definition emit_object_removed :: "addr \<Rightarrow> World \<Rightarrow> Abort + World" where
  "emit_object_removed modem_object w =
     bindA (handle_object_removed modem_object w) (g_object_unref modem_object)"

datatype Event =
    ObjectAdded addr
  | ObjectRemoved addr
  | RegistrationState addr MMModem3gppRegistrationState
  | Elapse nat
  | ResetPoll
  | Timeout nat
  | CallFinished nat bool

fun dispatch :: "bool \<Rightarrow> Event \<Rightarrow> World \<Rightarrow> Abort + World" where
  "dispatch dbg (ObjectAdded obj) w = handle_object_added obj w"
| "dispatch dbg (ObjectRemoved obj) w = emit_object_removed obj w"
| "dispatch dbg (RegistrationState obj st) w = registration_state_notify obj st w"
| "dispatch dbg (Elapse usec) w = Inr (w\<lparr>monotonic_time := monotonic_time w + int usec\<rparr>)"
| "dispatch dbg ResetPoll w = reset_poll_cb dbg w"
| "dispatch dbg (Timeout tag) w = timeout_dispatch tag w"
| "dispatch dbg (CallFinished n ok) w = call_finished n ok w"

fun main_loop :: "bool \<Rightarrow> Event list \<Rightarrow> World \<Rightarrow> Abort + World" where
  "main_loop dbg [] w = Inr w"
| "main_loop dbg (e # es) w = bindA (dispatch dbg e w) (main_loop dbg es)"

subsection \<open>Notions used to state the properties\<close>

text \<open>What the specification calls stuck: the last registration state is idle or denied.\<close>

definition stuck_state :: "MMModem3gppRegistrationState \<Rightarrow> bool" where
  "stuck_state st \<longleftrightarrow>
     st = MM_MODEM_3GPP_REGISTRATION_STATE_IDLE \<or> st = MM_MODEM_3GPP_REGISTRATION_STATE_DENIED"

text \<open>
  The specification's rule for \<open>stuck_since\<close> (section 4.1): on idle or denied keep an
  onset time that is already there, else take the current time; on any other state the
  sentinel 0.
\<close>

definition spec_stuck_since :: "MMModem3gppRegistrationState \<Rightarrow> int \<Rightarrow> int \<Rightarrow> int" where
  "spec_stuck_since st now ts = (if stuck_state st then (if ts = 0 then now else ts) else 0)"

definition timestamp_of :: "addr \<Rightarrow> World \<Rightarrow> int option" where
  "timestamp_of obj w = map_option timestamp (get_modem_context obj w)"

text \<open>
  A modem is monitored when it carries a context and a handler is connected to the
  notification of its registration state, as \<open>handle_object_added\<close> leaves it.
\<close>

definition monitored :: "addr \<Rightarrow> World \<Rightarrow> bool" where
  "monitored obj w \<longleftrightarrow> get_modem_context obj w \<noteq> None \<and> handlers_of obj w \<noteq> []"

text \<open>A stream of notifications for one modem, each after some time has passed.\<close>

fun notifications :: "addr \<Rightarrow> (nat \<times> MMModem3gppRegistrationState) list \<Rightarrow> Event list" where
  "notifications obj [] = []"
| "notifications obj (n # ns) =
     Elapse (fst n) # RegistrationState obj (snd n) # notifications obj ns"

text \<open>No context has a timestamp other than the one it had, if it still exists.\<close>

definition keeps_timestamps :: "World \<Rightarrow> World \<Rightarrow> bool" where
  "keeps_timestamps w w' \<longleftrightarrow>
     (\<forall>a. timestamp_of a w' = None \<or> timestamp_of a w' = timestamp_of a w)"

text \<open>The events through which a kick operation starts, runs and ends.\<close>

fun kick_event :: "Event \<Rightarrow> bool" where
  "kick_event ResetPoll = True"
| "kick_event (Timeout tag) = True"
| "kick_event (CallFinished n ok) = True"
| "kick_event (Elapse usec) = True"
| "kick_event e = False"

text \<open>The pending timeout sources whose callback would run on a given object.\<close>

definition timers_of :: "addr \<Rightarrow> World \<Rightarrow> nat list" where
  "timers_of obj w = map fst (filter (\<lambda>kv. snd kv = obj) (sources w))"

text \<open>
  The main context hands out source ids from a counter: ids are positive, the pending
  ones are distinct and below the counter.
\<close>

definition sources_ok :: "World \<Rightarrow> bool" where
  "sources_ok w \<longleftrightarrow>
     0 < next_source w \<and> list_all (\<lambda>kv. fst kv < next_source w) (sources w)
     \<and> distinct (map fst (sources w))"

text \<open>
  An operation waits for its timer: the object is alive, its context is at step \<open>st\<close>
  with \<open>k\<close> failures counted, \<open>next_id\<close> is the one pending source of the object, and the
  operation's cancellable has not been cancelled.
\<close>

definition op_armed :: "addr \<Rightarrow> OpState \<Rightarrow> 32 word \<Rightarrow> World \<Rightarrow> bool" where
  "op_armed obj st k w \<longleftrightarrow>
     sources_ok w \<and> 0 < ref_count_of obj w \<and>
     (case get_modem_context obj w of None \<Rightarrow> False
      | Some c \<Rightarrow> op_state c = st \<and> tries c = k \<and> next_id c \<noteq> 0
                 \<and> timers_of obj w = [next_id c]
                 \<and> \<not> g_cancellable_is_cancelled (cancellable c) w)"

text \<open>The table of section 4.5 of the specification: the request of a step, and the
  step that follows its success.\<close>

fun spec_action :: "OpState \<Rightarrow> CallKind option" where
  "spec_action MODEM_OP_STATE_DISABLE = Some CALL_DISABLE"
| "spec_action MODEM_OP_STATE_LOW_POWER = Some CALL_SET_POWER_STATE_LOW"
| "spec_action MODEM_OP_STATE_ENABLE = Some CALL_ENABLE"
| "spec_action st = None"

fun spec_next_step :: "OpState \<Rightarrow> OpState" where
  "spec_next_step MODEM_OP_STATE_DISABLE = MODEM_OP_STATE_LOW_POWER"
| "spec_next_step MODEM_OP_STATE_LOW_POWER = MODEM_OP_STATE_ENABLE"
| "spec_next_step MODEM_OP_STATE_ENABLE = MODEM_OP_STATE_FINISH"
| "spec_next_step st = st"

text \<open>
  An operation waits for the answer to the request of step \<open>st\<close>: the request is the
  most recent call in flight, it holds a reference to the object, and no timer of the
  object is pending.
\<close>

definition op_calling :: "addr \<Rightarrow> OpState \<Rightarrow> 32 word \<Rightarrow> World \<Rightarrow> bool" where
  "op_calling obj st k w \<longleftrightarrow>
     sources_ok w \<and> 1 < ref_count_of obj w \<and> calls w \<noteq> [] \<and>
     (case get_modem_context obj w of None \<Rightarrow> False
      | Some c \<Rightarrow> op_state c = st \<and> tries c = k \<and> next_id c = 0
                 \<and> timers_of obj w = []
                 \<and> \<not> g_cancellable_is_cancelled (cancellable c) w
                 \<and> spec_action st = Some (call_kind (last (calls w)))
                 \<and> call_cancellable (last (calls w)) = cancellable c
                 \<and> call_data (last (calls w)) = obj)"

text \<open>
  The operation of a modem driven through its steps: its timer fires, the request then
  sent is answered with the next outcome of the list (\<open>True\<close> for success).
\<close>

fun kick_steps :: "addr \<Rightarrow> bool list \<Rightarrow> World \<Rightarrow> Abort + World" where
  "kick_steps obj [] w = Inr w"
| "kick_steps obj (ok # oks) w =
     (case get_modem_context obj w of None \<Rightarrow> Inl InvalidPointer
      | Some c \<Rightarrow>
          bindA (timeout_dispatch (next_id c) w)
            (\<lambda>w1. bindA (call_finished (length (calls w1) - 1) ok w1) (kick_steps obj oks)))"

text \<open>The step reached after a number of successes.\<close>

fun step_number :: "nat \<Rightarrow> OpState" where
  "step_number 0 = MODEM_OP_STATE_DISABLE"
| "step_number (Suc n) = spec_next_step (step_number n)"

text \<open>
  The registry is in order when every object it holds is alive and referenced, carries a
  context whose \<open>next_id\<close> names the pending timers of the object exactly, and whose
  cancellable, if any, exists.
\<close>

definition entry_ok :: "World \<Rightarrow> addr \<Rightarrow> bool" where
  "entry_ok w a \<longleftrightarrow>
     0 < ref_count_of a w \<and>
     (case get_modem_context a w of None \<Rightarrow> False
      | Some c \<Rightarrow> timers_of a w = (if next_id c = 0 then [] else [next_id c])
                 \<and> (case cancellable c of None \<Rightarrow> True
                     | Some i \<Rightarrow> i < length (cancellables w)))"

definition cancellable_of :: "addr \<Rightarrow> World \<Rightarrow> nat option" where
  "cancellable_of a w = (case get_modem_context a w of None \<Rightarrow> None | Some c \<Rightarrow> cancellable c)"

definition entries_ok :: "World \<Rightarrow> addr list \<Rightarrow> bool" where
  "entries_ok w as \<longleftrightarrow>
     sources_ok w \<and> list_all (entry_ok w) as \<and>
     list_all (\<lambda>a. list_all (\<lambda>b. a = b \<or> cancellable_of a w = None
                                    \<or> cancellable_of a w \<noteq> cancellable_of b w) as) as"

definition registry_ok :: "World \<Rightarrow> bool" where
  "registry_ok w \<longleftrightarrow> entries_ok w (map snd (modems w))"

text \<open>The test of the sweep, in the production build: the modem has been stuck for more
  than the kick interval.\<close>

definition kick_due :: "addr \<Rightarrow> World \<Rightarrow> bool" where
  "kick_due obj w \<longleftrightarrow>
     (case timestamp_of obj w of None \<Rightarrow> False
      | Some ts \<Rightarrow> ts \<noteq> 0 \<and>
          KICK_INTERVAL_SECONDS False * G_USEC_PER_SEC < g_get_monotonic_time w - ts)"

text \<open>The state in which the sweep leaves a modem it kicks.\<close>

definition kick_started :: "addr \<Rightarrow> ModemContext \<Rightarrow> World \<Rightarrow> World" where
  "kick_started obj c w =
     set_modem_context obj
       (c\<lparr>cancellable := Some (length (cancellables w)),
          op_state := MODEM_OP_STATE_DISABLE, next_id := next_source w, tries := 0\<rparr>)
       (snd (g_timeout_add_seconds obj
          (snd (g_cancellable_new (snd (modem_context_cancel_op c w))))))"

text \<open>
  The statement that the DEBUG build adds to the body of the sweep's loop: the timestamp
  of the modem is overwritten with a time 700 seconds before now.
\<close>

definition debug_timestamp :: "addr \<Rightarrow> World \<Rightarrow> World" where
  "debug_timestamp obj w =
     (case get_modem_context obj w of None \<Rightarrow> w
      | Some c \<Rightarrow>
          set_modem_context obj
            (c\<lparr>timestamp := g_get_monotonic_time w - 700 * G_USEC_PER_SEC\<rparr>) w)"

text \<open>What the three completion callbacks have in common.\<close>

definition ready_callback :: "bool \<Rightarrow> OpState \<Rightarrow> addr \<Rightarrow> World \<Rightarrow> Abort + World" where
  "ready_callback finish_ok next_state obj w =
     bindA (if \<not> finish_ok then modem_schedule_retry_op_state obj w
            else modem_schedule_op_state obj next_state w) (g_object_unref obj)"

text \<open>
  A step of an operation succeeds: its timer fires and sends the request \<open>kind\<close> and
  nothing else; the request is answered with success, which leaves the operation waiting
  at step \<open>st'\<close>, its failure count untouched.
\<close>

definition step_succeeds :: "addr \<Rightarrow> World \<Rightarrow> CallKind \<Rightarrow> OpState \<Rightarrow> bool" where
  "step_succeeds obj w kind st' \<longleftrightarrow>
     (case get_modem_context obj w of None \<Rightarrow> False
      | Some c \<Rightarrow>
     (case timeout_dispatch (next_id c) w of Inl e \<Rightarrow> False
      | Inr w1 \<Rightarrow>
          calls w1 = calls w @ [\<lparr>call_kind = kind, call_cancellable = cancellable c,
                                 call_data = obj\<rparr>]
          \<and> timers_of obj w1 = []
          \<and> (case call_finished (length (calls w)) True w1 of Inl e \<Rightarrow> False
             | Inr w2 \<Rightarrow> op_armed obj st' (tries c) w2 \<and> calls w2 = calls w)))"

text \<open>
  An operation ends: its timer fires, no request is sent, and the context is back to
  having no operation, no cancellable, no timer and no failures counted; the cancellable
  it had is cancelled.
\<close>

definition op_released :: "addr \<Rightarrow> World \<Rightarrow> bool" where
  "op_released obj w \<longleftrightarrow>
     (case get_modem_context obj w of None \<Rightarrow> False
      | Some c \<Rightarrow>
     (case timeout_dispatch (next_id c) w of Inl e \<Rightarrow> False
      | Inr w' \<Rightarrow>
          get_modem_context obj w' =
            Some (c\<lparr>op_state := MODEM_OP_STATE_NONE, cancellable := None,
                    next_id := 0, tries := 0\<rparr>)
          \<and> timers_of obj w' = [] \<and> calls w' = calls w
          \<and> (case cancellable c of None \<Rightarrow> True
              | Some i \<Rightarrow> i < length (cancellables w)
                          \<longrightarrow> g_cancellable_is_cancelled (Some i) w')))"

text \<open>What the properties look at: the registry, one modem and the main loop.\<close>

definition kick_view ::
  "addr \<Rightarrow> World \<Rightarrow>
     (string \<times> addr) list \<times> nat \<times> ModemContext option \<times> nat list
       \<times> (nat \<times> addr) list \<times> AsyncCall list \<times> bool list" where
  "kick_view obj w =
     (modems w, ref_count_of obj w, get_modem_context obj w, handlers_of obj w,
      sources w, calls w, cancellables w)"

definition outcome_view ::
  "addr \<Rightarrow> Abort + World \<Rightarrow>
     Abort + (string \<times> addr) list \<times> nat \<times> ModemContext option \<times> nat list
       \<times> (nat \<times> addr) list \<times> AsyncCall list \<times> bool list" where
  "outcome_view obj r = (case r of Inl e \<Rightarrow> Inl e | Inr w \<Rightarrow> Inr (kick_view obj w))"

text \<open>
  A process that has just started, and a modem object that ModemManager exports: it has
  both interfaces and a primary port, is idle, and is referenced by the object manager.
\<close>

definition modem0 :: MMObject where
  "modem0 =
     \<lparr>object_path = ''/org/freedesktop/ModemManager1/Modem/0'',
      modem_iface = Some \<lparr>primary_port = Some ''cdc-wdm0''\<rparr>,
      modem_3gpp_iface = Some \<lparr>registration_state = MM_MODEM_3GPP_REGISTRATION_STATE_IDLE,
                                notify_handlers = []\<rparr>,
      ref_count = 1, modem_context = None\<rparr>"

definition world0 :: World where
  "world0 =
     \<lparr>modems = [], objects = [0 \<mapsto> modem0], sources = [], next_source = 1, calls = [],
      cancellables = [], monotonic_time = 1000\<rparr>"

text \<open>The process once the object manager has announced that modem.\<close>

definition world1 :: World where
  "world1 = (case handle_object_added 0 world0 of Inl e \<Rightarrow> world0 | Inr w \<Rightarrow> w)"

text \<open>The process after further events.\<close>

definition world_run :: "Event list \<Rightarrow> World" where
  "world_run es = (case main_loop False es world1 of Inl e \<Rightarrow> world1 | Inr w \<Rightarrow> w)"

text \<open>A sweep more than 605 seconds later, which kicks the modem.\<close>

definition world2 :: World where
  "world2 = world_run [Elapse 605000001, ResetPoll]"

text \<open>The operation started by that sweep, after the given outcomes of its requests.\<close>

definition world_after :: "bool list \<Rightarrow> World" where
  "world_after oks = (case kick_steps 0 oks world2 of Inl e \<Rightarrow> world2 | Inr w \<Rightarrow> w)"

text \<open>A process that has just started, with some other object at address 0.\<close>

definition world_with :: "MMObject \<Rightarrow> World" where
  "world_with ob = world0\<lparr>objects := [0 \<mapsto> ob]\<rparr>"

named_theorems views

lemma bindA_simps [simp]: "bindA (Inl e) f = Inl e" "bindA (Inr x) f = f x"
  by (simp_all add: bindA_def)

lemma bindA_Inr_iff: "bindA m f = Inr y \<longleftrightarrow> (\<exists>x. m = Inr x \<and> f x = Inr y)"
  by (cases m) simp_all

lemma get_modem_context_alive: "get_modem_context obj w = Some c \<Longrightarrow> objects w obj \<noteq> None"
  by (auto simp: get_modem_context_def split: option.splits)

lemma ref_count_of_alive: "0 < ref_count_of obj w \<Longrightarrow> objects w obj \<noteq> None"
  by (auto simp: ref_count_of_def split: option.splits)

text \<open>Views of a world whose objects are unchanged.\<close>

lemma same_objects_views:
  assumes "objects w' = objects w"
  shows "get_modem_context a w' = get_modem_context a w"
    and "ref_count_of a w' = ref_count_of a w"
    and "registration_state_of a w' = registration_state_of a w"
    and "handlers_of a w' = handlers_of a w"
    and "timestamp_of a w' = timestamp_of a w"
  using assms
  by (simp_all add: get_modem_context_def ref_count_of_def registration_state_of_def
      handlers_of_def timestamp_of_def)

lemma set_modem_context_views [views]:
  "modems (set_modem_context obj c w) = modems w"
  "sources (set_modem_context obj c w) = sources w"
  "next_source (set_modem_context obj c w) = next_source w"
  "calls (set_modem_context obj c w) = calls w"
  "cancellables (set_modem_context obj c w) = cancellables w"
  "monotonic_time (set_modem_context obj c w) = monotonic_time w"
  "(objects (set_modem_context obj c w) a = None) = (objects w a = None)"
  "get_modem_context a (set_modem_context obj c w) =
     (if a = obj \<and> objects w obj \<noteq> None then Some c else get_modem_context a w)"
  "ref_count_of a (set_modem_context obj c w) = ref_count_of a w"
  "registration_state_of a (set_modem_context obj c w) = registration_state_of a w"
  "handlers_of a (set_modem_context obj c w) = handlers_of a w"
  by (auto simp: set_modem_context_def get_modem_context_def ref_count_of_def
      registration_state_of_def handlers_of_def split: option.splits)

lemma set_ref_count_views [views]:
  "modems (set_ref_count obj n w) = modems w"
  "sources (set_ref_count obj n w) = sources w"
  "next_source (set_ref_count obj n w) = next_source w"
  "calls (set_ref_count obj n w) = calls w"
  "cancellables (set_ref_count obj n w) = cancellables w"
  "monotonic_time (set_ref_count obj n w) = monotonic_time w"
  "(objects (set_ref_count obj n w) a = None) = (objects w a = None)"
  "get_modem_context a (set_ref_count obj n w) = get_modem_context a w"
  "ref_count_of a (set_ref_count obj n w) =
     (if a = obj \<and> objects w obj \<noteq> None then n else ref_count_of a w)"
  "registration_state_of a (set_ref_count obj n w) = registration_state_of a w"
  "handlers_of a (set_ref_count obj n w) = handlers_of a w"
  by (auto simp: set_ref_count_def get_modem_context_def ref_count_of_def
      registration_state_of_def handlers_of_def split: option.splits)

lemma g_object_ref_views [views]:
  "modems (g_object_ref obj w) = modems w"
  "sources (g_object_ref obj w) = sources w"
  "next_source (g_object_ref obj w) = next_source w"
  "calls (g_object_ref obj w) = calls w"
  "cancellables (g_object_ref obj w) = cancellables w"
  "monotonic_time (g_object_ref obj w) = monotonic_time w"
  "(objects (g_object_ref obj w) a = None) = (objects w a = None)"
  "get_modem_context a (g_object_ref obj w) = get_modem_context a w"
  "ref_count_of a (g_object_ref obj w) =
     (if a = obj \<and> objects w obj \<noteq> None then Suc (ref_count_of a w) else ref_count_of a w)"
  "registration_state_of a (g_object_ref obj w) = registration_state_of a w"
  "handlers_of a (g_object_ref obj w) = handlers_of a w"
  by (simp_all add: g_object_ref_def views)

lemma g_source_remove_views [views]:
  "modems (g_source_remove t w) = modems w"
  "objects (g_source_remove t w) = objects w"
  "sources (g_source_remove t w) = AList.delete t (sources w)"
  "next_source (g_source_remove t w) = next_source w"
  "calls (g_source_remove t w) = calls w"
  "cancellables (g_source_remove t w) = cancellables w"
  "monotonic_time (g_source_remove t w) = monotonic_time w"
  "get_modem_context a (g_source_remove t w) = get_modem_context a w"
  "ref_count_of a (g_source_remove t w) = ref_count_of a w"
  "registration_state_of a (g_source_remove t w) = registration_state_of a w"
  "handlers_of a (g_source_remove t w) = handlers_of a w"
  by (simp_all add: g_source_remove_def get_modem_context_def ref_count_of_def
      registration_state_of_def handlers_of_def)

lemma g_timeout_add_seconds_views [views]:
  "fst (g_timeout_add_seconds data w) = next_source w"
  "modems (snd (g_timeout_add_seconds data w)) = modems w"
  "objects (snd (g_timeout_add_seconds data w)) = objects w"
  "sources (snd (g_timeout_add_seconds data w)) = sources w @ [(next_source w, data)]"
  "next_source (snd (g_timeout_add_seconds data w)) = Suc (next_source w)"
  "calls (snd (g_timeout_add_seconds data w)) = calls w"
  "cancellables (snd (g_timeout_add_seconds data w)) = cancellables w"
  "monotonic_time (snd (g_timeout_add_seconds data w)) = monotonic_time w"
  "get_modem_context a (snd (g_timeout_add_seconds data w)) = get_modem_context a w"
  "ref_count_of a (snd (g_timeout_add_seconds data w)) = ref_count_of a w"
  "registration_state_of a (snd (g_timeout_add_seconds data w)) = registration_state_of a w"
  "handlers_of a (snd (g_timeout_add_seconds data w)) = handlers_of a w"
  by (simp_all add: g_timeout_add_seconds_def get_modem_context_def ref_count_of_def
      registration_state_of_def handlers_of_def)

lemma g_cancellable_cancel_views [views]:
  "modems (g_cancellable_cancel c w) = modems w"
  "objects (g_cancellable_cancel c w) = objects w"
  "sources (g_cancellable_cancel c w) = sources w"
  "next_source (g_cancellable_cancel c w) = next_source w"
  "calls (g_cancellable_cancel c w) = calls w"
  "cancellables (g_cancellable_cancel c w) =
     (case c of None \<Rightarrow> cancellables w | Some i \<Rightarrow> (cancellables w)[i := True])"
  "monotonic_time (g_cancellable_cancel c w) = monotonic_time w"
  "get_modem_context a (g_cancellable_cancel c w) = get_modem_context a w"
  "ref_count_of a (g_cancellable_cancel c w) = ref_count_of a w"
  "registration_state_of a (g_cancellable_cancel c w) = registration_state_of a w"
  "handlers_of a (g_cancellable_cancel c w) = handlers_of a w"
  by (simp_all add: g_cancellable_cancel_def get_modem_context_def ref_count_of_def
      registration_state_of_def handlers_of_def split: option.splits)

lemma g_cancellable_new_views [views]:
  "fst (g_cancellable_new w) = length (cancellables w)"
  "modems (snd (g_cancellable_new w)) = modems w"
  "objects (snd (g_cancellable_new w)) = objects w"
  "sources (snd (g_cancellable_new w)) = sources w"
  "next_source (snd (g_cancellable_new w)) = next_source w"
  "calls (snd (g_cancellable_new w)) = calls w"
  "cancellables (snd (g_cancellable_new w)) = cancellables w @ [False]"
  "monotonic_time (snd (g_cancellable_new w)) = monotonic_time w"
  "get_modem_context a (snd (g_cancellable_new w)) = get_modem_context a w"
  "ref_count_of a (snd (g_cancellable_new w)) = ref_count_of a w"
  "registration_state_of a (snd (g_cancellable_new w)) = registration_state_of a w"
  "handlers_of a (snd (g_cancellable_new w)) = handlers_of a w"
  by (simp_all add: g_cancellable_new_def get_modem_context_def ref_count_of_def
      registration_state_of_def handlers_of_def)

lemma modem_context_cancel_op_views [views]:
  "fst (modem_context_cancel_op c w) =
     c\<lparr>op_state := MODEM_OP_STATE_NONE, cancellable := None, next_id := 0, tries := 0\<rparr>"
  "modems (snd (modem_context_cancel_op c w)) = modems w"
  "objects (snd (modem_context_cancel_op c w)) = objects w"
  "sources (snd (modem_context_cancel_op c w)) =
     (if next_id c \<noteq> 0 then AList.delete (next_id c) (sources w) else sources w)"
  "next_source (snd (modem_context_cancel_op c w)) = next_source w"
  "calls (snd (modem_context_cancel_op c w)) = calls w"
  "cancellables (snd (modem_context_cancel_op c w)) =
     (case cancellable c of None \<Rightarrow> cancellables w | Some i \<Rightarrow> (cancellables w)[i := True])"
  "monotonic_time (snd (modem_context_cancel_op c w)) = monotonic_time w"
  "get_modem_context a (snd (modem_context_cancel_op c w)) = get_modem_context a w"
  "ref_count_of a (snd (modem_context_cancel_op c w)) = ref_count_of a w"
  "registration_state_of a (snd (modem_context_cancel_op c w)) = registration_state_of a w"
  "handlers_of a (snd (modem_context_cancel_op c w)) = handlers_of a w"
  by (simp_all add: modem_context_cancel_op_def Let_def views)

lemma mm_modem_call_views [views]:
  "modems (mm_modem_call kind c obj w) = modems w"
  "sources (mm_modem_call kind c obj w) = sources w"
  "next_source (mm_modem_call kind c obj w) = next_source w"
  "calls (mm_modem_call kind c obj w) =
     calls w @ [\<lparr>call_kind = kind, call_cancellable = c, call_data = obj\<rparr>]"
  "cancellables (mm_modem_call kind c obj w) = cancellables w"
  "monotonic_time (mm_modem_call kind c obj w) = monotonic_time w"
  "(objects (mm_modem_call kind c obj w) a = None) = (objects w a = None)"
  "get_modem_context a (mm_modem_call kind c obj w) = get_modem_context a w"
  "ref_count_of a (mm_modem_call kind c obj w) =
     (if a = obj \<and> objects w obj \<noteq> None then Suc (ref_count_of a w) else ref_count_of a w)"
  "registration_state_of a (mm_modem_call kind c obj w) = registration_state_of a w"
  "handlers_of a (mm_modem_call kind c obj w) = handlers_of a w"
proof -
  have o: "objects (mm_modem_call kind c obj w) = objects (g_object_ref obj w)"
    by (simp add: mm_modem_call_def Let_def)
  show "modems (mm_modem_call kind c obj w) = modems w"
    "sources (mm_modem_call kind c obj w) = sources w"
    "next_source (mm_modem_call kind c obj w) = next_source w"
    "calls (mm_modem_call kind c obj w) =
       calls w @ [\<lparr>call_kind = kind, call_cancellable = c, call_data = obj\<rparr>]"
    "cancellables (mm_modem_call kind c obj w) = cancellables w"
    "monotonic_time (mm_modem_call kind c obj w) = monotonic_time w"
    by (simp_all add: mm_modem_call_def Let_def views)
  show "(objects (mm_modem_call kind c obj w) a = None) = (objects w a = None)"
    by (simp add: o views)
  show "get_modem_context a (mm_modem_call kind c obj w) = get_modem_context a w"
    "ref_count_of a (mm_modem_call kind c obj w) =
     (if a = obj \<and> objects w obj \<noteq> None then Suc (ref_count_of a w) else ref_count_of a w)"
    "registration_state_of a (mm_modem_call kind c obj w) = registration_state_of a w"
    "handlers_of a (mm_modem_call kind c obj w) = handlers_of a w"
    by (simp_all add: same_objects_views[OF o] views)
qed

lemma g_object_finalize_views [views]:
  "modems (g_object_finalize obj w) = modems w"
  "next_source (g_object_finalize obj w) = next_source w"
  "calls (g_object_finalize obj w) = calls w"
  "monotonic_time (g_object_finalize obj w) = monotonic_time w"
  "objects (g_object_finalize obj w) a = (if a = obj then None else objects w a)"
  "get_modem_context a (g_object_finalize obj w) =
     (if a = obj then None else get_modem_context a w)"
  "ref_count_of a (g_object_finalize obj w) = (if a = obj then 0 else ref_count_of a w)"
  "registration_state_of a (g_object_finalize obj w) =
     (if a = obj then None else registration_state_of a w)"
  "handlers_of a (g_object_finalize obj w) = (if a = obj then [] else handlers_of a w)"
  "sources (g_object_finalize obj w) =
     (case get_modem_context obj w of None \<Rightarrow> sources w
      | Some c \<Rightarrow> if next_id c \<noteq> 0 then AList.delete (next_id c) (sources w) else sources w)"
  "cancellables (g_object_finalize obj w) =
     (case get_modem_context obj w of None \<Rightarrow> cancellables w
      | Some c \<Rightarrow> (case cancellable c of None \<Rightarrow> cancellables w
                  | Some i \<Rightarrow> (cancellables w)[i := True]))"
  by (auto simp: g_object_finalize_def modem_context_free_def Let_def views
      get_modem_context_def ref_count_of_def registration_state_of_def handlers_of_def
      split: option.splits)

lemma set_set_modem_context [simp]:
  "set_modem_context obj c2 (set_modem_context obj c1 w) = set_modem_context obj c2 w"
  by (simp add: set_modem_context_def split: option.splits)

lemma set_get_modem_context:
  "get_modem_context obj w = Some c \<Longrightarrow> set_modem_context obj c w = w"
  by (auto simp: set_modem_context_def get_modem_context_def fun_upd_idem split: option.splits)

lemma timestamp_of_views [views]:
  "timestamp_of a (set_modem_context obj c w) =
     (if a = obj \<and> objects w obj \<noteq> None then Some (timestamp c) else timestamp_of a w)"
  "timestamp_of a (set_ref_count obj n w) = timestamp_of a w"
  "timestamp_of a (g_object_ref obj w) = timestamp_of a w"
  "timestamp_of a (g_source_remove t w) = timestamp_of a w"
  "timestamp_of a (snd (g_timeout_add_seconds data w)) = timestamp_of a w"
  "timestamp_of a (g_cancellable_cancel co w) = timestamp_of a w"
  "timestamp_of a (snd (g_cancellable_new w)) = timestamp_of a w"
  "timestamp_of a (snd (modem_context_cancel_op c w)) = timestamp_of a w"
  "timestamp_of a (mm_modem_call kind co obj w) = timestamp_of a w"
  "timestamp_of a (g_object_finalize obj w) = (if a = obj then None else timestamp_of a w)"
  by (auto simp: timestamp_of_def views)

lemma set_registration_state_views [views]:
  "modems (set_registration_state obj st w) = modems w"
  "sources (set_registration_state obj st w) = sources w"
  "next_source (set_registration_state obj st w) = next_source w"
  "calls (set_registration_state obj st w) = calls w"
  "cancellables (set_registration_state obj st w) = cancellables w"
  "monotonic_time (set_registration_state obj st w) = monotonic_time w"
  "(objects (set_registration_state obj st w) a = None) = (objects w a = None)"
  "get_modem_context a (set_registration_state obj st w) = get_modem_context a w"
  "ref_count_of a (set_registration_state obj st w) = ref_count_of a w"
  "handlers_of a (set_registration_state obj st w) = handlers_of a w"
  "timestamp_of a (set_registration_state obj st w) = timestamp_of a w"
  "registration_state_of a (set_registration_state obj st w) =
     (if a = obj \<and> registration_state_of obj w \<noteq> None then Some st
      else registration_state_of a w)"
  by (auto simp: set_registration_state_def get_modem_context_def ref_count_of_def
      registration_state_of_def handlers_of_def timestamp_of_def split: option.splits)

lemma g_signal_connect_views [views]:
  "fst (g_signal_connect obj w) = Suc (length (handlers_of obj w))"
  "modems (snd (g_signal_connect obj w)) = modems w"
  "sources (snd (g_signal_connect obj w)) = sources w"
  "next_source (snd (g_signal_connect obj w)) = next_source w"
  "calls (snd (g_signal_connect obj w)) = calls w"
  "cancellables (snd (g_signal_connect obj w)) = cancellables w"
  "monotonic_time (snd (g_signal_connect obj w)) = monotonic_time w"
  "(objects (snd (g_signal_connect obj w)) a = None) = (objects w a = None)"
  "get_modem_context a (snd (g_signal_connect obj w)) = get_modem_context a w"
  "ref_count_of a (snd (g_signal_connect obj w)) = ref_count_of a w"
  "registration_state_of a (snd (g_signal_connect obj w)) = registration_state_of a w"
  "timestamp_of a (snd (g_signal_connect obj w)) = timestamp_of a w"
  "handlers_of a (snd (g_signal_connect obj w)) =
     (if a = obj \<and> registration_state_of obj w \<noteq> None
      then handlers_of obj w @ [Suc (length (handlers_of obj w))] else handlers_of a w)"
  by (auto simp: g_signal_connect_def Let_def get_modem_context_def ref_count_of_def
      registration_state_of_def handlers_of_def timestamp_of_def split: option.splits)

lemma modem_context_free_views [views]:
  "modems (modem_context_free c w) = modems w"
  "objects (modem_context_free c w) = objects w"
  "next_source (modem_context_free c w) = next_source w"
  "calls (modem_context_free c w) = calls w"
  "monotonic_time (modem_context_free c w) = monotonic_time w"
  "get_modem_context a (modem_context_free c w) = get_modem_context a w"
  "ref_count_of a (modem_context_free c w) = ref_count_of a w"
  "registration_state_of a (modem_context_free c w) = registration_state_of a w"
  "handlers_of a (modem_context_free c w) = handlers_of a w"
  "timestamp_of a (modem_context_free c w) = timestamp_of a w"
  by (simp_all add: modem_context_free_def views)

lemma g_object_set_data_full_views [views]:
  "modems (g_object_set_data_full obj c w) = modems w"
  "next_source (g_object_set_data_full obj c w) = next_source w"
  "calls (g_object_set_data_full obj c w) = calls w"
  "monotonic_time (g_object_set_data_full obj c w) = monotonic_time w"
  "(objects (g_object_set_data_full obj c w) a = None) = (objects w a = None)"
  "get_modem_context a (g_object_set_data_full obj c w) =
     (if a = obj \<and> objects w obj \<noteq> None then Some c else get_modem_context a w)"
  "ref_count_of a (g_object_set_data_full obj c w) = ref_count_of a w"
  "registration_state_of a (g_object_set_data_full obj c w) = registration_state_of a w"
  "handlers_of a (g_object_set_data_full obj c w) = handlers_of a w"
  by (auto simp: g_object_set_data_full_def views split: option.splits)

lemma modem_registration_changed_eq:
  assumes "get_modem_context obj w = Some c" "registration_state_of obj w = Some st"
  shows "modem_registration_changed obj w =
           Inr (set_modem_context obj
                  (c\<lparr>timestamp := spec_stuck_since st (monotonic_time w) (timestamp c)\<rparr>) w)"
proof -
  have same: "set_modem_context obj (c\<lparr>timestamp := timestamp c\<rparr>) w = w"
    using assms(1) by (simp add: set_get_modem_context)
  show ?thesis
    using assms same
    by (auto simp: modem_registration_changed_def spec_stuck_since_def stuck_state_def
        get_modem_context_def registration_state_of_def g_get_monotonic_time_def Let_def
        split: option.splits)
qed

lemma run_notify_handlers_eq:
  assumes "get_modem_context obj w = Some c" "registration_state_of obj w = Some st"
    "hs \<noteq> []" "monotonic_time w \<noteq> 0"
  shows "run_notify_handlers hs obj w =
           Inr (set_modem_context obj
                  (c\<lparr>timestamp := spec_stuck_since st (monotonic_time w) (timestamp c)\<rparr>) w)"
  using assms
proof (induction hs arbitrary: w c)
  case Nil
  then show ?case by simp
next
  case (Cons h hs)
  let ?c1 = "c\<lparr>timestamp := spec_stuck_since st (monotonic_time w) (timestamp c)\<rparr>"
  let ?w1 = "set_modem_context obj ?c1 w"
  have first: "modem_registration_changed obj w = Inr ?w1"
    using Cons.prems by (simp add: modem_registration_changed_eq)
  show ?case
  proof (cases "hs = []")
    case True
    show ?thesis unfolding True by (simp add: first)
  next
    case False
    have alive: "objects w obj \<noteq> None"
      using Cons.prems(1) by (auto simp: get_modem_context_def split: option.splits)
    have idem: "spec_stuck_since st (monotonic_time w)
                  (spec_stuck_since st (monotonic_time w) (timestamp c))
                = spec_stuck_since st (monotonic_time w) (timestamp c)"
      using Cons.prems(4) by (simp add: spec_stuck_since_def)
    have "run_notify_handlers hs obj ?w1 =
            Inr (set_modem_context obj
                   (?c1\<lparr>timestamp := spec_stuck_since st (monotonic_time ?w1) (timestamp ?c1)\<rparr>) ?w1)"
      using Cons.prems False alive by (intro Cons.IH) (simp_all add: views)
    then show ?thesis by (simp add: first idem views)
  qed
qed


lemma keeps_timestamps_refl [simp]: "keeps_timestamps w w"
  by (simp add: keeps_timestamps_def)

lemma keeps_timestamps_trans:
  "keeps_timestamps w1 w2 \<Longrightarrow> keeps_timestamps w2 w3 \<Longrightarrow> keeps_timestamps w1 w3"
  unfolding keeps_timestamps_def by (metis)

lemma keeps_timestamps_objects:
  "objects w' = objects w \<Longrightarrow> keeps_timestamps w w'"
  by (simp add: keeps_timestamps_def timestamp_of_def get_modem_context_def)

lemma keeps_timestamps_set:
  assumes "get_modem_context obj w = Some c0" "timestamp c = timestamp c0"
  shows "keeps_timestamps w (set_modem_context obj c w)"
  using assms
  by (auto simp: keeps_timestamps_def views timestamp_of_def)

lemma modem_schedule_op_state_eq:
  assumes "get_modem_context obj w = Some c" "next_id c = 0"
  shows "modem_schedule_op_state obj st w =
           Inr (set_modem_context obj (c\<lparr>op_state := st, next_id := next_source w\<rparr>)
                  (snd (g_timeout_add_seconds obj w)))"
  using assms by (simp add: modem_schedule_op_state_def split_beta views)

lemma modem_schedule_op_state_Inr:
  assumes "modem_schedule_op_state obj st w = Inr w'"
  obtains c where "get_modem_context obj w = Some c" "next_id c = 0"
    "w' = set_modem_context obj (c\<lparr>op_state := st, next_id := next_source w\<rparr>)
            (snd (g_timeout_add_seconds obj w))"
proof (cases "get_modem_context obj w")
  case None
  then show ?thesis using assms by (simp add: modem_schedule_op_state_def)
next
  case (Some c)
  then have z: "next_id c = 0"
    using assms by (auto simp: modem_schedule_op_state_def split: if_splits)
  show ?thesis
    using that[OF Some z] assms modem_schedule_op_state_eq[OF Some z, of st] by simp
qed

lemma keeps_schedule:
  assumes "modem_schedule_op_state obj st w = Inr w'"
  shows "keeps_timestamps w w'"
proof -
  from assms obtain c where c: "get_modem_context obj w = Some c"
    and w': "w' = set_modem_context obj (c\<lparr>op_state := st, next_id := next_source w\<rparr>)
            (snd (g_timeout_add_seconds obj w))"
    by (rule modem_schedule_op_state_Inr)
  have "keeps_timestamps w (snd (g_timeout_add_seconds obj w))"
    by (rule keeps_timestamps_objects) (simp add: views)
  moreover have "keeps_timestamps (snd (g_timeout_add_seconds obj w)) w'"
    unfolding w' using c by (intro keeps_timestamps_set[where ?c0.0 = c]) (simp_all add: views)
  ultimately show ?thesis by (rule keeps_timestamps_trans)
qed

lemma keeps_retry:
  assumes "modem_schedule_retry_op_state obj w = Inr w'"
  shows "keeps_timestamps w w'"
proof -
  obtain c where c: "get_modem_context obj w = Some c"
    using assms by (auto simp: modem_schedule_retry_op_state_def split: option.splits)
  let ?w1 = "set_modem_context obj (c\<lparr>tries := tries c + 1\<rparr>) w"
  have k1: "keeps_timestamps w ?w1"
    using c by (intro keeps_timestamps_set) simp_all
  obtain st where "modem_schedule_op_state obj st ?w1 = Inr w'"
    using assms c by (auto simp: modem_schedule_retry_op_state_def Let_def split: if_splits)
  then show ?thesis
    using k1 keeps_schedule keeps_timestamps_trans by blast
qed

lemma keeps_unref:
  "g_object_unref obj w = Inr w' \<Longrightarrow> keeps_timestamps w w'"
  by (auto simp: g_object_unref_def keeps_timestamps_def views split: if_splits)

lemma keeps_ref: "keeps_timestamps w (g_object_ref obj w)"
  by (simp add: keeps_timestamps_def views)

lemma keeps_call: "keeps_timestamps w (mm_modem_call kind c obj w)"
  by (simp add: keeps_timestamps_def views)

lemma keeps_cancel_op:
  "keeps_timestamps w (snd (modem_context_cancel_op c w))"
  by (simp add: keeps_timestamps_def views)

lemma timestamp_cancel_op:
  "timestamp (fst (modem_context_cancel_op c w)) = timestamp c"
  by (simp add: views)

lemma keeps_run:
  assumes "modem_op_state_run obj w = Inr w'"
  shows "keeps_timestamps w w'"
proof -
  obtain c where c: "get_modem_context obj w = Some c"
    using assms by (auto simp: modem_op_state_run_def split: option.splits)
  let ?c1 = "c\<lparr>next_id := 0\<rparr>"
  let ?w1 = "set_modem_context obj ?c1 w"
  have k1: "keeps_timestamps w ?w1"
    using c by (intro keeps_timestamps_set) simp_all
  have alive: "objects w obj \<noteq> None"
    using c by (auto simp: get_modem_context_def split: option.splits)
  have c1: "get_modem_context obj ?w1 = Some ?c1"
    using alive by (simp add: views)
  have "keeps_timestamps ?w1 w'"
  proof (cases "op_state c")
    case MODEM_OP_STATE_NONE
    then have "modem_schedule_op_state obj MODEM_OP_STATE_DISABLE ?w1 = Inr w'"
      using assms c by (simp add: modem_op_state_run_def Let_def)
    then show ?thesis by (rule keeps_schedule)
  next
    case MODEM_OP_STATE_DISABLE
    then have "w' = mm_modem_call CALL_DISABLE (cancellable ?c1) obj ?w1"
      using assms c by (simp add: modem_op_state_run_def Let_def)
    then show ?thesis by (simp add: keeps_call)
  next
    case MODEM_OP_STATE_LOW_POWER
    then have "w' = mm_modem_call CALL_SET_POWER_STATE_LOW (cancellable ?c1) obj ?w1"
      using assms c by (simp add: modem_op_state_run_def Let_def)
    then show ?thesis by (simp add: keeps_call)
  next
    case MODEM_OP_STATE_ENABLE
    then have "w' = mm_modem_call CALL_ENABLE (cancellable ?c1) obj ?w1"
      using assms c by (simp add: modem_op_state_run_def Let_def)
    then show ?thesis by (simp add: keeps_call)
  next
    case MODEM_OP_STATE_FINISH
    let ?w2 = "snd (modem_context_cancel_op ?c1 ?w1)"
    have w': "w' = set_modem_context obj (fst (modem_context_cancel_op ?c1 ?w1)) ?w2"
      using assms c MODEM_OP_STATE_FINISH
      by (simp add: modem_op_state_run_def Let_def split_beta)
    have "get_modem_context obj ?w2 = Some ?c1"
      using c1 by (simp add: views)
    then have "keeps_timestamps ?w2 w'"
      unfolding w' by (rule keeps_timestamps_set) (simp add: views)
    then show ?thesis
      using keeps_cancel_op keeps_timestamps_trans by blast
  qed
  then show ?thesis using k1 keeps_timestamps_trans by blast
qed

lemma keeps_callback:
  assumes "bindA (if b then modem_schedule_retry_op_state obj w
                  else modem_schedule_op_state obj st w) (g_object_unref obj) = Inr w'"
  shows "keeps_timestamps w w'"
proof -
  obtain w1 where w1: "(if b then modem_schedule_retry_op_state obj w
                  else modem_schedule_op_state obj st w) = Inr w1" "g_object_unref obj w1 = Inr w'"
    using assms by (auto simp: bindA_Inr_iff)
  have "keeps_timestamps w w1"
    using w1(1) keeps_retry keeps_schedule by (auto split: if_splits)
  then show ?thesis
    using keeps_unref[OF w1(2)] keeps_timestamps_trans by blast
qed

lemma keeps_call_finished:
  assumes "call_finished n ok w = Inr w'"
  shows "keeps_timestamps w w'"
proof (cases "n \<ge> length (calls w)")
  case True
  then show ?thesis using assms by (simp add: call_finished_def)
next
  case False
  let ?w1 = "w\<lparr>calls := take n (calls w) @ drop (Suc n) (calls w)\<rparr>"
  have k1: "keeps_timestamps w ?w1"
    by (rule keeps_timestamps_objects) simp
  have "keeps_timestamps ?w1 w'"
    using assms False
    by (auto simp: call_finished_def Let_def modem_disable_ready_def
        set_power_state_low_ready_def modem_enable_ready_def
        split: CallKind.splits intro: keeps_callback)
  then show ?thesis using k1 keeps_timestamps_trans by blast
qed

lemma keeps_timeout:
  assumes "timeout_dispatch tag w = Inr w'"
  shows "keeps_timestamps w w'"
proof (cases "map_of (sources w) tag")
  case None
  then show ?thesis using assms by (simp add: timeout_dispatch_def)
next
  case (Some data)
  then obtain w1 where w1: "modem_op_state_run data w = Inr w1" "w' = g_source_remove tag w1"
    using assms by (auto simp: timeout_dispatch_def bindA_Inr_iff)
  have "keeps_timestamps w1 w'"
    unfolding w1(2) by (rule keeps_timestamps_objects) (simp add: views)
  then show ?thesis
    using keeps_run[OF w1(1)] keeps_timestamps_trans by blast
qed

lemma keeps_reset_poll_modem:
  assumes "reset_poll_modem False obj w = Inr w'"
  shows "keeps_timestamps w w'"
proof -
  obtain c where c: "get_modem_context obj w = Some c"
    using assms by (auto simp: reset_poll_modem_def split: option.splits)
  show ?thesis
  proof (cases "timestamp c \<noteq> 0 \<and>
      g_get_monotonic_time w - timestamp c > KICK_INTERVAL_SECONDS False * G_USEC_PER_SEC")
    case False
    then have "w' = w"
      using assms c by (auto simp: reset_poll_modem_def Let_def split: if_splits)
    then show ?thesis by simp
  next
    case True
    let ?w1 = "snd (modem_context_cancel_op c w)"
    let ?c1 = "fst (modem_context_cancel_op c w)"
    let ?w2 = "snd (g_cancellable_new ?w1)"
    let ?w3 = "set_modem_context obj (?c1\<lparr>cancellable := Some (fst (g_cancellable_new ?w1))\<rparr>) ?w2"
    have run: "modem_op_state_run obj ?w3 = Inr w'"
      using assms c True
      by (simp add: reset_poll_modem_def Let_def split_beta)
    have o2: "objects ?w2 = objects w"
      by (simp add: views)
    have k2: "keeps_timestamps w ?w2"
      using o2 by (rule keeps_timestamps_objects)
    have "get_modem_context obj ?w2 = Some c"
      using c by (simp add: views)
    then have "keeps_timestamps ?w2 ?w3"
      by (rule keeps_timestamps_set) (simp add: views)
    then show ?thesis
      using k2 keeps_run[OF run] keeps_timestamps_trans by blast
  qed
qed

lemma keeps_reset_poll_loop:
  "reset_poll_loop False kvs w = Inr w' \<Longrightarrow> keeps_timestamps w w'"
proof (induction kvs arbitrary: w)
  case Nil
  then show ?case by simp
next
  case (Cons kv kvs)
  then obtain w1 where "reset_poll_modem False (snd kv) w = Inr w1"
      "reset_poll_loop False kvs w1 = Inr w'"
    by (auto simp: bindA_Inr_iff)
  then show ?case
    using Cons.IH keeps_reset_poll_modem keeps_timestamps_trans by blast
qed

lemma field_update_views [views]:
  "get_modem_context a (w\<lparr>calls := cs\<rparr>) = get_modem_context a w"
  "ref_count_of a (w\<lparr>calls := cs\<rparr>) = ref_count_of a w"
  "registration_state_of a (w\<lparr>calls := cs\<rparr>) = registration_state_of a w"
  "handlers_of a (w\<lparr>calls := cs\<rparr>) = handlers_of a w"
  "timestamp_of a (w\<lparr>calls := cs\<rparr>) = timestamp_of a w"
  "get_modem_context a (w\<lparr>modems := ms\<rparr>) = get_modem_context a w"
  "ref_count_of a (w\<lparr>modems := ms\<rparr>) = ref_count_of a w"
  "registration_state_of a (w\<lparr>modems := ms\<rparr>) = registration_state_of a w"
  "handlers_of a (w\<lparr>modems := ms\<rparr>) = handlers_of a w"
  "timestamp_of a (w\<lparr>modems := ms\<rparr>) = timestamp_of a w"
  "get_modem_context a (w\<lparr>monotonic_time := t\<rparr>) = get_modem_context a w"
  "ref_count_of a (w\<lparr>monotonic_time := t\<rparr>) = ref_count_of a w"
  "registration_state_of a (w\<lparr>monotonic_time := t\<rparr>) = registration_state_of a w"
  "handlers_of a (w\<lparr>monotonic_time := t\<rparr>) = handlers_of a w"
  "timestamp_of a (w\<lparr>monotonic_time := t\<rparr>) = timestamp_of a w"
  by (simp_all add: get_modem_context_def ref_count_of_def registration_state_of_def
      handlers_of_def timestamp_of_def)


lemma timers_of_delete:
  "map fst (filter (\<lambda>kv. snd kv = a) (AList.delete t xs)) =
     removeAll t (map fst (filter (\<lambda>kv. snd kv = a) xs))"
  by (induction xs) (auto simp: AList.delete_eq)

lemma timers_of_views [views]:
  "timers_of a (set_modem_context obj c w) = timers_of a w"
  "timers_of a (set_ref_count obj n w) = timers_of a w"
  "timers_of a (g_object_ref obj w) = timers_of a w"
  "timers_of a (mm_modem_call kind co obj w) = timers_of a w"
  "timers_of a (g_cancellable_cancel co w) = timers_of a w"
  "timers_of a (snd (g_cancellable_new w)) = timers_of a w"
  "timers_of a (w\<lparr>calls := cs\<rparr>) = timers_of a w"
  "timers_of a (w\<lparr>modems := ms\<rparr>) = timers_of a w"
  "timers_of a (w\<lparr>monotonic_time := t\<rparr>) = timers_of a w"
  "timers_of a (g_source_remove tag w) = removeAll tag (timers_of a w)"
  "timers_of a (snd (g_timeout_add_seconds data w)) =
     timers_of a w @ (if data = a then [next_source w] else [])"
  "timers_of a (snd (modem_context_cancel_op c w)) =
     (if next_id c \<noteq> 0 then removeAll (next_id c) (timers_of a w) else timers_of a w)"
  by (simp_all add: timers_of_def views timers_of_delete)

lemma sources_ok_same:
  "sources w' = sources w \<Longrightarrow> next_source w' = next_source w \<Longrightarrow> sources_ok w' = sources_ok w"
  by (simp add: sources_ok_def)

lemma sources_ok_delete: "sources_ok w \<Longrightarrow> sources_ok (g_source_remove t w)"
  by (auto simp: sources_ok_def views AList.delete_eq list_all_iff distinct_map_filter)

lemma sources_ok_add: "sources_ok w \<Longrightarrow> sources_ok (snd (g_timeout_add_seconds data w))"
  by (fastforce simp: sources_ok_def views list_all_iff)

lemma sources_ok_views [views]:
  "sources_ok (set_modem_context obj c w) = sources_ok w"
  "sources_ok (set_ref_count obj n w) = sources_ok w"
  "sources_ok (g_object_ref obj w) = sources_ok w"
  "sources_ok (mm_modem_call kind co obj w) = sources_ok w"
  "sources_ok (g_cancellable_cancel co w) = sources_ok w"
  "sources_ok (snd (g_cancellable_new w)) = sources_ok w"
  "sources_ok (w\<lparr>calls := cs\<rparr>) = sources_ok w"
  "sources_ok (w\<lparr>modems := ms\<rparr>) = sources_ok w"
  "sources_ok (w\<lparr>monotonic_time := t\<rparr>) = sources_ok w"
  by (simp_all add: sources_ok_def views)

lemma sources_ok_cancel_op: "sources_ok w \<Longrightarrow> sources_ok (snd (modem_context_cancel_op c w))"
  using sources_ok_delete[of w "next_id c"]
  by (simp add: sources_ok_def views)

lemma is_cancelled_views [views]:
  "g_cancellable_is_cancelled co (set_modem_context obj c w) = g_cancellable_is_cancelled co w"
  "g_cancellable_is_cancelled co (set_ref_count obj n w) = g_cancellable_is_cancelled co w"
  "g_cancellable_is_cancelled co (g_object_ref obj w) = g_cancellable_is_cancelled co w"
  "g_cancellable_is_cancelled co (mm_modem_call kind co' obj w) = g_cancellable_is_cancelled co w"
  "g_cancellable_is_cancelled co (g_source_remove tag w) = g_cancellable_is_cancelled co w"
  "g_cancellable_is_cancelled co (snd (g_timeout_add_seconds data w)) =
     g_cancellable_is_cancelled co w"
  "g_cancellable_is_cancelled co (w\<lparr>calls := cs\<rparr>) = g_cancellable_is_cancelled co w"
  "g_cancellable_is_cancelled co (w\<lparr>modems := ms\<rparr>) = g_cancellable_is_cancelled co w"
  "g_cancellable_is_cancelled co (w\<lparr>monotonic_time := t\<rparr>) = g_cancellable_is_cancelled co w"
  "g_cancellable_is_cancelled co (snd (g_cancellable_new w)) = g_cancellable_is_cancelled co w"
  by (auto simp: g_cancellable_is_cancelled_def views nth_append split: option.splits)

lemma nth_update_True: "j < length xs \<Longrightarrow> xs ! j \<Longrightarrow> xs[i := True] ! j"
  by (cases "i = j") simp_all

lemma nth_update_True_iff:
  "j < length xs \<Longrightarrow> xs[i := True] ! j \<longleftrightarrow> xs ! j \<or> i = j"
  by (cases "i = j") simp_all

lemma is_cancelled_cancel:
  "g_cancellable_is_cancelled co (g_cancellable_cancel c w) =
     (g_cancellable_is_cancelled co w \<or>
      (co = c \<and> (case c of None \<Rightarrow> False | Some i \<Rightarrow> i < length (cancellables w))))"
  by (auto simp: g_cancellable_is_cancelled_def views nth_update_True_iff split: option.splits)

lemma is_cancelled_cancel_op:
  "g_cancellable_is_cancelled co (snd (modem_context_cancel_op c w)) =
     (g_cancellable_is_cancelled co w \<or>
      (co = cancellable c \<and>
       (case cancellable c of None \<Rightarrow> False | Some i \<Rightarrow> i < length (cancellables w))))"
  by (auto simp: g_cancellable_is_cancelled_def views nth_update_True_iff split: option.splits)

lemma sources_ok_lookup:
  assumes "sources_ok w" "t \<in> set (timers_of obj w)"
  shows "map_of (sources w) t = Some obj"
proof -
  have "(t, obj) \<in> set (sources w)"
    using assms(2) by (auto simp: timers_of_def)
  moreover have "distinct (map fst (sources w))"
    using assms(1) by (simp add: sources_ok_def)
  ultimately show ?thesis by simp
qed

lemma sources_ok_fresh:
  assumes "sources_ok w"
  shows "next_source w \<notin> set (timers_of a w)" "next_source w \<noteq> 0"
  using assms by (auto simp: sources_ok_def timers_of_def list_all_iff)

text \<open>The timer of a waiting operation fires at one of the three steps with a request.\<close>

lemma modem_op_state_run_request:
  assumes "get_modem_context obj w = Some c" "spec_action (op_state c) = Some kind"
  shows "modem_op_state_run obj w =
           Inr (mm_modem_call kind (cancellable c) obj
                  (set_modem_context obj (c\<lparr>next_id := 0\<rparr>) w))"
  using assms
  by (cases "op_state c") (simp_all add: modem_op_state_run_def Let_def)

lemma modem_op_state_run_finish:
  assumes "get_modem_context obj w = Some c" "op_state c = MODEM_OP_STATE_FINISH"
  shows "modem_op_state_run obj w =
           Inr (set_modem_context obj
                  (c\<lparr>op_state := MODEM_OP_STATE_NONE, cancellable := None,
                     next_id := 0, tries := 0\<rparr>)
                  (snd (modem_context_cancel_op (c\<lparr>next_id := 0\<rparr>) w)))"
proof -
  have "snd (modem_context_cancel_op (c\<lparr>next_id := 0\<rparr>)
               (set_modem_context obj (c\<lparr>next_id := 0\<rparr>) w))
        = set_modem_context obj (c\<lparr>next_id := 0\<rparr>)
            (snd (modem_context_cancel_op (c\<lparr>next_id := 0\<rparr>) w))"
    by (simp add: modem_context_cancel_op_def Let_def g_cancellable_cancel_def
        set_modem_context_def split: option.splits)
  then show ?thesis
    using assms by (simp add: modem_op_state_run_def Let_def split_beta views)
qed

lemma modem_op_state_run_none:
  assumes "get_modem_context obj w = Some c" "op_state c = MODEM_OP_STATE_NONE"
  shows "modem_op_state_run obj w =
           Inr (set_modem_context obj
                  (c\<lparr>op_state := MODEM_OP_STATE_DISABLE, next_id := next_source w\<rparr>)
                  (snd (g_timeout_add_seconds obj w)))"
proof -
  let ?w1 = "set_modem_context obj (c\<lparr>next_id := 0\<rparr>) w"
  have alive: "objects w obj \<noteq> None"
    using assms(1) by (rule get_modem_context_alive)
  have c1: "get_modem_context obj ?w1 = Some (c\<lparr>next_id := 0\<rparr>)"
    using alive by (simp add: views)
  have swap: "snd (g_timeout_add_seconds obj ?w1)
      = set_modem_context obj (c\<lparr>next_id := 0\<rparr>) (snd (g_timeout_add_seconds obj w))"
    by (simp add: g_timeout_add_seconds_def set_modem_context_def split: option.splits)
  have "modem_op_state_run obj w = modem_schedule_op_state obj MODEM_OP_STATE_DISABLE ?w1"
    using assms by (simp add: modem_op_state_run_def Let_def)
  also have "\<dots> = Inr (set_modem_context obj
        (c\<lparr>next_id := 0, op_state := MODEM_OP_STATE_DISABLE, next_id := next_source ?w1\<rparr>)
        (snd (g_timeout_add_seconds obj ?w1)))"
    using modem_schedule_op_state_eq[OF c1, of MODEM_OP_STATE_DISABLE] by simp
  finally show ?thesis by (simp add: swap views)
qed

lemma op_armedD:
  assumes "op_armed obj st k w"
  obtains c where "get_modem_context obj w = Some c" "op_state c = st" "tries c = k"
    "next_id c \<noteq> 0" "timers_of obj w = [next_id c]"
    "\<not> g_cancellable_is_cancelled (cancellable c) w" "sources_ok w" "0 < ref_count_of obj w"
    "objects w obj \<noteq> None" "map_of (sources w) (next_id c) = Some obj"
proof -
  from assms obtain c where c: "get_modem_context obj w = Some c"
    by (auto simp: op_armed_def split: option.splits)
  with assms have rest: "op_state c = st" "tries c = k" "next_id c \<noteq> 0"
    "timers_of obj w = [next_id c]" "\<not> g_cancellable_is_cancelled (cancellable c) w"
    "sources_ok w" "0 < ref_count_of obj w"
    by (simp_all add: op_armed_def)
  have "map_of (sources w) (next_id c) = Some obj"
    using rest(6,4) by (intro sources_ok_lookup) simp_all
  then show ?thesis
    using that c rest get_modem_context_alive[OF c] by blast
qed

lemma op_callingD:
  assumes "op_calling obj st k w"
  obtains c where "get_modem_context obj w = Some c" "op_state c = st" "tries c = k"
    "next_id c = 0" "timers_of obj w = []"
    "\<not> g_cancellable_is_cancelled (cancellable c) w" "sources_ok w" "1 < ref_count_of obj w"
    "objects w obj \<noteq> None" "calls w \<noteq> []"
    "spec_action st = Some (call_kind (last (calls w)))"
    "call_cancellable (last (calls w)) = cancellable c" "call_data (last (calls w)) = obj"
proof -
  from assms obtain c where c: "get_modem_context obj w = Some c"
    by (auto simp: op_calling_def split: option.splits)
  with assms have rest: "op_state c = st" "tries c = k" "next_id c = 0"
    "timers_of obj w = []" "\<not> g_cancellable_is_cancelled (cancellable c) w"
    "sources_ok w" "1 < ref_count_of obj w" "calls w \<noteq> []"
    "spec_action st = Some (call_kind (last (calls w)))"
    "call_cancellable (last (calls w)) = cancellable c" "call_data (last (calls w)) = obj"
    by (simp_all add: op_calling_def)
  show ?thesis
    using that c rest get_modem_context_alive[OF c] by blast
qed

text \<open>The timer of a waiting operation fires: the request of its step is sent.\<close>

lemma timer_fires:
  assumes armed: "op_armed obj st k w" and c: "get_modem_context obj w = Some c"
    and act: "spec_action st = Some kind"
  defines "w' \<equiv> g_source_remove (next_id c)
                  (mm_modem_call kind (cancellable c) obj
                     (set_modem_context obj (c\<lparr>next_id := 0\<rparr>) w))"
  shows "timeout_dispatch (next_id c) w = Inr w'" and "op_calling obj st k w'"
    and "calls w' = calls w @ [\<lparr>call_kind = kind, call_cancellable = cancellable c,
                                call_data = obj\<rparr>]"
    and "cancellables w' = cancellables w" and "modems w' = modems w"
    and "next_source w' = next_source w" and "monotonic_time w' = monotonic_time w"
    and "get_modem_context obj w' = Some (c\<lparr>next_id := 0\<rparr>)"
    and "ref_count_of obj w' = Suc (ref_count_of obj w)"
proof -
  from armed obtain c0 where c0: "get_modem_context obj w = Some c0" "op_state c0 = st"
    "tries c0 = k" "next_id c0 \<noteq> 0" "timers_of obj w = [next_id c0]"
    "\<not> g_cancellable_is_cancelled (cancellable c0) w" "sources_ok w" "0 < ref_count_of obj w"
    "objects w obj \<noteq> None" "map_of (sources w) (next_id c0) = Some obj"
    by (rule op_armedD)
  have cc: "c0 = c" using c c0(1) by simp
  note c0 = c0[unfolded cc]
  have run: "modem_op_state_run obj w =
      Inr (mm_modem_call kind (cancellable c) obj (set_modem_context obj (c\<lparr>next_id := 0\<rparr>) w))"
    using c act c0(2) by (intro modem_op_state_run_request) simp_all
  show "timeout_dispatch (next_id c) w = Inr w'"
    using c0(10) run by (simp add: timeout_dispatch_def w'_def)
  show "calls w' = calls w @ [\<lparr>call_kind = kind, call_cancellable = cancellable c,
                                call_data = obj\<rparr>]"
    "cancellables w' = cancellables w" "modems w' = modems w"
    "next_source w' = next_source w" "monotonic_time w' = monotonic_time w"
    by (simp_all add: w'_def views)
  show ctx: "get_modem_context obj w' = Some (c\<lparr>next_id := 0\<rparr>)"
    using c0(9) by (simp add: w'_def views)
  show rc: "ref_count_of obj w' = Suc (ref_count_of obj w)"
    using c0(9) by (simp add: w'_def views)
  have "sources_ok w'"
    unfolding w'_def using c0(7) by (intro sources_ok_delete) (simp add: views)
  moreover have "timers_of obj w' = []"
    using c0(5) by (simp add: w'_def views)
  moreover have "\<not> g_cancellable_is_cancelled (cancellable c) w'"
    using c0(6) by (simp add: w'_def views)
  ultimately show "op_calling obj st k w'"
    using ctx rc c0(2,3,8) act
    by (simp add: op_calling_def) (simp add: w'_def views)
qed

lemma last_call_index:
  assumes "cs \<noteq> []"
  shows "\<not> length cs \<le> length cs - 1" "cs ! (length cs - 1) = last cs"
    "take (length cs - 1) cs @ drop (Suc (length cs - 1)) cs = butlast cs"
proof -
  have "0 < length cs" using assms by simp
  then show "\<not> length cs \<le> length cs - 1" by arith
  show "cs ! (length cs - 1) = last cs"
    using assms by (simp add: last_conv_nth)
  show "take (length cs - 1) cs @ drop (Suc (length cs - 1)) cs = butlast cs"
    using assms by (simp add: butlast_conv_take)
qed

lemma g_object_unref_keep:
  assumes "1 < ref_count_of obj w"
  shows "g_object_unref obj w = Inr (set_ref_count obj (ref_count_of obj w - 1) w)"
proof -
  have "objects w obj \<noteq> None"
    using assms by (intro ref_count_of_alive) simp
  then show ?thesis using assms by (simp add: g_object_unref_def)
qed

lemma g_object_unref_last:
  assumes "objects w obj \<noteq> None" "ref_count_of obj w \<le> 1"
  shows "g_object_unref obj w = Inr (g_object_finalize obj w)"
  using assms by (simp add: g_object_unref_def)

lemma callbacks_ready:
  "modem_disable_ready ok obj w = ready_callback ok MODEM_OP_STATE_LOW_POWER obj w"
  "set_power_state_low_ready ok obj w = ready_callback ok MODEM_OP_STATE_ENABLE obj w"
  "modem_enable_ready ok obj w = ready_callback ok MODEM_OP_STATE_FINISH obj w"
  by (simp_all add: modem_disable_ready_def set_power_state_low_ready_def
      modem_enable_ready_def ready_callback_def Let_def)

lemma call_finished_last:
  assumes "calls w \<noteq> []" "spec_action st = Some (call_kind (last (calls w)))"
  shows "call_finished (length (calls w) - 1) ok w =
           ready_callback (ok \<and> \<not> g_cancellable_is_cancelled (call_cancellable (last (calls w))) w)
             (spec_next_step st) (call_data (last (calls w)))
             (w\<lparr>calls := butlast (calls w)\<rparr>)"
  using assms last_call_index[OF assms(1)]
  by (cases st) (simp_all add: call_finished_def Let_def callbacks_ready split: CallKind.splits)

lemma modem_schedule_retry_op_state_eq:
  assumes "get_modem_context obj w = Some c" "next_id c = 0"
  shows "modem_schedule_retry_op_state obj w =
           Inr (set_modem_context obj
                  (c\<lparr>tries := tries c + 1,
                     op_state := (if 3 < tries c + 1 then MODEM_OP_STATE_FINISH else op_state c),
                     next_id := next_source w\<rparr>)
                  (snd (g_timeout_add_seconds obj w)))"
proof -
  let ?c1 = "c\<lparr>tries := tries c + 1\<rparr>"
  let ?w1 = "set_modem_context obj ?c1 w"
  have alive: "objects w obj \<noteq> None"
    using assms(1) by (rule get_modem_context_alive)
  have c1: "get_modem_context obj ?w1 = Some ?c1" "next_id ?c1 = 0"
    using alive assms(2) by (simp_all add: views)
  have swap: "snd (g_timeout_add_seconds obj ?w1)
      = set_modem_context obj ?c1 (snd (g_timeout_add_seconds obj w))"
    by (simp add: g_timeout_add_seconds_def set_modem_context_def split: option.splits)
  show ?thesis
    using assms(1) modem_schedule_op_state_eq[OF c1]
    by (simp add: modem_schedule_retry_op_state_def Let_def swap views)
qed

text \<open>The request of an operation is answered.\<close>

lemma call_answered:
  fixes ok :: bool
  assumes calling: "op_calling obj st k w" and c: "get_modem_context obj w = Some c"
  defines "c' \<equiv> (if ok then c\<lparr>op_state := spec_next_step st, next_id := next_source w\<rparr>
                  else c\<lparr>tries := k + 1,
                         op_state := (if 3 < k + 1 then MODEM_OP_STATE_FINISH else st),
                         next_id := next_source w\<rparr>)"
  defines "w' \<equiv> set_ref_count obj (ref_count_of obj w - 1)
                  (set_modem_context obj c'
                     (snd (g_timeout_add_seconds obj (w\<lparr>calls := butlast (calls w)\<rparr>))))"
  shows "call_finished (length (calls w) - 1) ok w = Inr w'"
    and "op_armed obj (op_state c') (tries c') w'"
    and "get_modem_context obj w' = Some c'"
    and "calls w' = butlast (calls w)" and "cancellables w' = cancellables w"
    and "modems w' = modems w" and "monotonic_time w' = monotonic_time w"
    and "ref_count_of obj w' = ref_count_of obj w - 1"
proof -
  from calling obtain c0 where c0: "get_modem_context obj w = Some c0" "op_state c0 = st"
    "tries c0 = k" "next_id c0 = 0" "timers_of obj w = []"
    "\<not> g_cancellable_is_cancelled (cancellable c0) w" "sources_ok w" "1 < ref_count_of obj w"
    "objects w obj \<noteq> None" "calls w \<noteq> []"
    "spec_action st = Some (call_kind (last (calls w)))"
    "call_cancellable (last (calls w)) = cancellable c0" "call_data (last (calls w)) = obj"
    by (rule op_callingD)
  have cc: "c0 = c" using c c0(1) by simp
  note c0 = c0[unfolded cc]
  let ?w1 = "w\<lparr>calls := butlast (calls w)\<rparr>"
  let ?w2 = "set_modem_context obj c' (snd (g_timeout_add_seconds obj ?w1))"
  have c1: "get_modem_context obj ?w1 = Some c"
    using c by (simp add: views)
  have sched: "(if \<not> ok then modem_schedule_retry_op_state obj ?w1
                else modem_schedule_op_state obj (spec_next_step st) ?w1) = Inr ?w2"
    using modem_schedule_retry_op_state_eq[OF c1 c0(4)]
      modem_schedule_op_state_eq[OF c1 c0(4), of "spec_next_step st"] c0(2,3)
    by (simp add: c'_def)
  have alive2: "objects ?w2 obj \<noteq> None"
    using c0(9) by (simp add: views)
  have rc2: "ref_count_of obj ?w2 = ref_count_of obj w"
    by (simp add: views)
  have unref: "g_object_unref obj ?w2 = Inr w'"
    using g_object_unref_keep[of obj ?w2] c0(8) rc2 by (simp add: w'_def)
  have fin: "call_finished (length (calls w) - 1) ok w = ready_callback ok (spec_next_step st) obj ?w1"
    using call_finished_last[OF c0(10,11), of ok] c0(6,12,13) by simp
  show "call_finished (length (calls w) - 1) ok w = Inr w'"
    using fin sched unref by (simp add: ready_callback_def)
  show ctx: "get_modem_context obj w' = Some c'"
    using c0(9) by (simp add: w'_def views)
  show "calls w' = butlast (calls w)" "cancellables w' = cancellables w"
    "modems w' = modems w" "monotonic_time w' = monotonic_time w"
    by (simp_all add: w'_def views)
  show rc: "ref_count_of obj w' = ref_count_of obj w - 1"
    using c0(9) by (simp add: w'_def views)
  have ok': "sources_ok w'"
    unfolding w'_def using sources_ok_add[of ?w1 obj] c0(7) by (simp add: views)
  have tm: "timers_of obj w' = [next_source w]"
    using c0(5) by (simp add: w'_def views)
  have nid: "next_id c' = next_source w" "next_source w \<noteq> 0"
    using sources_ok_fresh(2)[OF c0(7)] by (simp_all add: c'_def)
  have canc: "\<not> g_cancellable_is_cancelled (cancellable c') w'"
    using c0(6) by (simp add: w'_def c'_def views)
  show "op_armed obj (op_state c') (tries c') w'"
    using ok' ctx tm nid canc rc c0(8) by (simp add: op_armed_def)
qed

text \<open>The timer fires at the last step: the operation is released.\<close>

lemma finish_releases:
  assumes armed: "op_armed obj MODEM_OP_STATE_FINISH k w" and c: "get_modem_context obj w = Some c"
  defines "w' \<equiv> g_source_remove (next_id c)
                  (set_modem_context obj
                     (c\<lparr>op_state := MODEM_OP_STATE_NONE, cancellable := None,
                        next_id := 0, tries := 0\<rparr>)
                     (snd (modem_context_cancel_op (c\<lparr>next_id := 0\<rparr>) w)))"
  shows "timeout_dispatch (next_id c) w = Inr w'"
    and "get_modem_context obj w' =
           Some (c\<lparr>op_state := MODEM_OP_STATE_NONE, cancellable := None,
                   next_id := 0, tries := 0\<rparr>)"
    and "timers_of obj w' = []" and "calls w' = calls w" and "modems w' = modems w"
    and "sources_ok w'" and "ref_count_of obj w' = ref_count_of obj w"
    and "cancellable c = Some i \<Longrightarrow> i < length (cancellables w) \<Longrightarrow>
           g_cancellable_is_cancelled (cancellable c) w'"
proof -
  from armed obtain c0 where c0: "get_modem_context obj w = Some c0" "op_state c0 = MODEM_OP_STATE_FINISH"
    "tries c0 = k" "next_id c0 \<noteq> 0" "timers_of obj w = [next_id c0]"
    "\<not> g_cancellable_is_cancelled (cancellable c0) w" "sources_ok w" "0 < ref_count_of obj w"
    "objects w obj \<noteq> None" "map_of (sources w) (next_id c0) = Some obj"
    by (rule op_armedD)
  have cc: "c0 = c" using c c0(1) by simp
  note c0 = c0[unfolded cc]
  show "timeout_dispatch (next_id c) w = Inr w'"
    using c0(10) modem_op_state_run_finish[OF c c0(2)]
    by (simp add: timeout_dispatch_def w'_def)
  show "get_modem_context obj w' =
           Some (c\<lparr>op_state := MODEM_OP_STATE_NONE, cancellable := None,
                   next_id := 0, tries := 0\<rparr>)"
    using c0(9) by (simp add: w'_def views)
  show "timers_of obj w' = []"
    using c0(5) by (simp add: w'_def views)
  show "calls w' = calls w" "modems w' = modems w"
    by (simp_all add: w'_def views)
  show "sources_ok w'"
    unfolding w'_def using c0(7)
    by (intro sources_ok_delete) (simp add: views sources_ok_cancel_op)
  show "ref_count_of obj w' = ref_count_of obj w"
    by (simp add: w'_def views)
  show "g_cancellable_is_cancelled (cancellable c) w'"
    if "cancellable c = Some i" "i < length (cancellables w)"
    using that by (simp add: w'_def views is_cancelled_cancel_op)
qed

lemma bindA_assoc: "bindA (bindA m f) g = bindA m (\<lambda>x. bindA (f x) g)"
  by (cases m) simp_all

lemma kick_steps_append:
  "kick_steps obj (xs @ ys) w = bindA (kick_steps obj xs w) (kick_steps obj ys)"
proof (induction xs arbitrary: w)
  case Nil
  show ?case by simp
next
  case (Cons ok xs)
  have IH: "kick_steps obj (xs @ ys) = (\<lambda>w. bindA (kick_steps obj xs w) (kick_steps obj ys))"
    by (rule ext) (rule Cons.IH)
  show ?case
    by (cases "get_modem_context obj w") (simp_all add: bindA_assoc IH)
qed

lemma step_number_action:
  "i \<le> 2 \<Longrightarrow> \<exists>kind. spec_action (step_number i) = Some kind"
proof -
  assume "i \<le> 2"
  then consider "i = 0" | "i = 1" | "i = 2" by linarith
  then show ?thesis by cases (simp_all add: numeral_2_eq_2)
qed

lemma step_number_3 [simp]: "step_number 3 = MODEM_OP_STATE_FINISH"
  by (simp add: numeral_3_eq_3)

lemma tries_small:
  fixes j :: nat
  assumes "j \<le> 2"
  shows "\<not> (3::32 word) < of_nat j + 1"
proof -
  from assms consider "j = 0" | "j = 1" | "j = 2" by linarith
  then show ?thesis by cases simp_all
qed

lemma tries_exhausted: "(3::32 word) < 3 + 1"
  by simp

text \<open>One step of an operation: the timer fires, then the request is answered.\<close>

lemma kick_step:
  assumes armed: "op_armed obj st k w" and act: "spec_action st = Some kind"
  shows "\<exists>w'. kick_steps obj (ok # oks) w = kick_steps obj oks w'
          \<and> op_armed obj (if ok then spec_next_step st
                           else if 3 < k + 1 then MODEM_OP_STATE_FINISH else st)
                (if ok then k else k + 1) w'
          \<and> calls w' = calls w \<and> cancellables w' = cancellables w \<and> modems w' = modems w
          \<and> monotonic_time w' = monotonic_time w \<and> ref_count_of obj w' = ref_count_of obj w
          \<and> timestamp_of obj w' = timestamp_of obj w"
proof -
  from armed obtain c where c: "get_modem_context obj w = Some c" "tries c = k"
    by (rule op_armedD)
  let ?w1 = "g_source_remove (next_id c)
               (mm_modem_call kind (cancellable c) obj
                  (set_modem_context obj (c\<lparr>next_id := 0\<rparr>) w))"
  note f = timer_fires[OF armed c(1) act]
  let ?c1 = "c\<lparr>next_id := 0\<rparr>"
  let ?c' = "(if ok then ?c1\<lparr>op_state := spec_next_step st, next_id := next_source ?w1\<rparr>
              else ?c1\<lparr>tries := k + 1,
                     op_state := (if 3 < k + 1 then MODEM_OP_STATE_FINISH else st),
                     next_id := next_source ?w1\<rparr>)"
  let ?w' = "set_ref_count obj (ref_count_of obj ?w1 - 1)
               (set_modem_context obj ?c'
                  (snd (g_timeout_add_seconds obj (?w1\<lparr>calls := butlast (calls ?w1)\<rparr>))))"
  note a = call_answered[OF f(2) f(8), of ok]
  have len: "length (calls ?w1) - 1 = length (calls w)"
    by (simp add: f(3))
  have "kick_steps obj (ok # oks) w = kick_steps obj oks ?w'"
    using c(1) f(1) a(1) by simp
  moreover have "op_armed obj (if ok then spec_next_step st
                           else if 3 < k + 1 then MODEM_OP_STATE_FINISH else st)
                (if ok then k else k + 1) ?w'"
    using a(2) c(2) by (simp split: if_splits)
  moreover have "calls ?w' = calls w" "cancellables ?w' = cancellables w"
    "modems ?w' = modems w" "monotonic_time ?w' = monotonic_time w"
    "ref_count_of obj ?w' = ref_count_of obj w"
    using a(4,5,6,7,8) f(3,4,5,7,9) by simp_all
  moreover have "timestamp_of obj ?w' = timestamp_of obj w"
    using a(3) c(1) by (simp add: timestamp_of_def)
  ultimately show ?thesis by blast
qed

lemma kick_steps_invariant:
  assumes "op_armed obj (step_number i) (of_nat j) w"
    and "i + length (filter id oks) \<le> 2" and "j + length (filter Not oks) \<le> 3"
  shows "\<exists>w'. kick_steps obj oks w = Inr w'
          \<and> op_armed obj (step_number (i + length (filter id oks)))
                (of_nat (j + length (filter Not oks))) w'
          \<and> calls w' = calls w \<and> cancellables w' = cancellables w \<and> modems w' = modems w
          \<and> monotonic_time w' = monotonic_time w \<and> ref_count_of obj w' = ref_count_of obj w
          \<and> timestamp_of obj w' = timestamp_of obj w"
  using assms
proof (induction oks arbitrary: w i j)
  case Nil
  then show ?case by simp
next
  case (Cons ok oks)
  have i2: "i \<le> 2" using Cons.prems(2) by simp
  then obtain kind where act: "spec_action (step_number i) = Some kind"
    using step_number_action by blast
  from kick_step[OF Cons.prems(1) act, of ok oks]
  obtain w1 where w1: "kick_steps obj (ok # oks) w = kick_steps obj oks w1"
    "op_armed obj (if ok then spec_next_step (step_number i)
                   else if 3 < (of_nat j :: 32 word) + 1 then MODEM_OP_STATE_FINISH
                        else step_number i)
        (if ok then of_nat j else of_nat j + 1) w1"
    "calls w1 = calls w" "cancellables w1 = cancellables w" "modems w1 = modems w"
    "monotonic_time w1 = monotonic_time w" "ref_count_of obj w1 = ref_count_of obj w"
    "timestamp_of obj w1 = timestamp_of obj w"
    by blast
  show ?case
  proof (cases ok)
    case True
    have armed1: "op_armed obj (step_number (Suc i)) (of_nat j) w1"
      using w1(2) True by simp
    from Cons.IH[OF armed1] Cons.prems(2,3) True
    show ?thesis using w1 by simp
  next
    case False
    have j2: "j \<le> 2" using Cons.prems(3) False by simp
    have armed1: "op_armed obj (step_number i) (of_nat (Suc j)) w1"
      using w1(2) False tries_small[OF j2] by (simp add: add.commute)
    from Cons.IH[OF armed1] Cons.prems(2,3) False
    show ?thesis using w1 by simp
  qed
qed

lemma timeout_add_set_commute:
  "snd (g_timeout_add_seconds data (set_modem_context obj c w))
     = set_modem_context obj c (snd (g_timeout_add_seconds data w))"
  by (simp add: g_timeout_add_seconds_def set_modem_context_def split: option.splits)

lemma cancellable_new_set_commute:
  "snd (g_cancellable_new (set_modem_context obj c w))
     = set_modem_context obj c (snd (g_cancellable_new w))"
  by (simp add: g_cancellable_new_def set_modem_context_def split: option.splits)

lemma kick_dueD:
  assumes "get_modem_context obj w = Some c"
  shows "kick_due obj w \<longleftrightarrow>
           timestamp c \<noteq> 0 \<and>
           KICK_INTERVAL_SECONDS False * G_USEC_PER_SEC < monotonic_time w - timestamp c"
  using assms by (simp add: kick_due_def timestamp_of_def g_get_monotonic_time_def)

lemma reset_poll_modem_skip:
  assumes "get_modem_context obj w = Some c" "\<not> kick_due obj w"
  shows "reset_poll_modem False obj w = Inr w"
  using assms
  by (auto simp: reset_poll_modem_def kick_dueD Let_def g_get_monotonic_time_def)

lemma reset_poll_modem_kick:
  assumes c: "get_modem_context obj w = Some c" and due: "kick_due obj w"
  shows "reset_poll_modem False obj w = Inr (kick_started obj c w)"
proof -
  let ?c1 = "fst (modem_context_cancel_op c w)"
  let ?w1 = "snd (modem_context_cancel_op c w)"
  let ?cn = "fst (g_cancellable_new ?w1)"
  let ?w2 = "snd (g_cancellable_new ?w1)"
  let ?c3 = "?c1\<lparr>cancellable := Some ?cn\<rparr>"
  let ?w3 = "set_modem_context obj ?c3 ?w2"
  have alive: "objects ?w2 obj \<noteq> None"
    using get_modem_context_alive[OF c] by (simp add: views)
  have c3: "get_modem_context obj ?w3 = Some ?c3" "op_state ?c3 = MODEM_OP_STATE_NONE"
    using alive by (simp_all add: views)
  have "reset_poll_modem False obj w = modem_op_state_run obj ?w3"
    using c due
    by (simp add: reset_poll_modem_def kick_dueD Let_def split_beta g_get_monotonic_time_def)
  also have "\<dots> = Inr (set_modem_context obj
                  (?c3\<lparr>op_state := MODEM_OP_STATE_DISABLE, next_id := next_source ?w3\<rparr>)
                  (snd (g_timeout_add_seconds obj ?w3)))"
    by (rule modem_op_state_run_none[OF c3])
  also have "\<dots> = Inr (kick_started obj c w)"
  proof -
    have "?c3\<lparr>op_state := MODEM_OP_STATE_DISABLE, next_id := next_source ?w3\<rparr>
        = c\<lparr>cancellable := Some (length (cancellables w)),
             op_state := MODEM_OP_STATE_DISABLE, next_id := next_source w, tries := 0\<rparr>"
      by (cases c) (simp add: views split: option.splits)
    then show ?thesis
      by (simp only: kick_started_def timeout_add_set_commute set_set_modem_context)
  qed
  finally show ?thesis .
qed

lemma kick_started_views [views]:
  "modems (kick_started obj c w) = modems w"
  "calls (kick_started obj c w) = calls w"
  "monotonic_time (kick_started obj c w) = monotonic_time w"
  "next_source (kick_started obj c w) = Suc (next_source w)"
  "cancellables (kick_started obj c w) =
     (case cancellable c of None \<Rightarrow> cancellables w | Some i \<Rightarrow> (cancellables w)[i := True])
       @ [False]"
  "(objects (kick_started obj c w) a = None) = (objects w a = None)"
  "ref_count_of a (kick_started obj c w) = ref_count_of a w"
  "registration_state_of a (kick_started obj c w) = registration_state_of a w"
  "handlers_of a (kick_started obj c w) = handlers_of a w"
  "get_modem_context a (kick_started obj c w) =
     (if a = obj \<and> objects w obj \<noteq> None
      then Some (c\<lparr>cancellable := Some (length (cancellables w)),
                   op_state := MODEM_OP_STATE_DISABLE, next_id := next_source w, tries := 0\<rparr>)
      else get_modem_context a w)"
  "timers_of a (kick_started obj c w) =
     (if next_id c \<noteq> 0 then removeAll (next_id c) (timers_of a w) else timers_of a w)
       @ (if obj = a then [next_source w] else [])"
  by (auto simp: kick_started_def views)

lemma sources_ok_kick_started: "sources_ok w \<Longrightarrow> sources_ok (kick_started obj c w)"
  unfolding kick_started_def
  by (simp add: views sources_ok_add sources_ok_cancel_op)

lemma timers_disjoint:
  assumes "sources_ok w" "t \<in> set (timers_of a w)" "b \<noteq> a"
  shows "t \<notin> set (timers_of b w)"
proof
  assume "t \<in> set (timers_of b w)"
  then have "map_of (sources w) t = Some b"
    using assms(1) by (intro sources_ok_lookup)
  moreover have "map_of (sources w) t = Some a"
    using assms(1,2) by (intro sources_ok_lookup)
  ultimately show False using assms(3) by simp
qed

lemma entries_okD:
  assumes "entries_ok w as" "a \<in> set as"
  shows "sources_ok w" "entry_ok w a"
    and "b \<in> set as \<Longrightarrow> a \<noteq> b \<Longrightarrow> cancellable_of a w = Some i \<Longrightarrow> cancellable_of b w \<noteq> Some i"
proof -
  show "sources_ok w" "entry_ok w a"
    using assms by (simp_all add: entries_ok_def list_all_iff)
  assume b: "b \<in> set as" "a \<noteq> b" "cancellable_of a w = Some i"
  have "a = b \<or> cancellable_of a w = None \<or> cancellable_of a w \<noteq> cancellable_of b w"
    using assms b(1) by (simp add: entries_ok_def list_all_iff)
  then show "cancellable_of b w \<noteq> Some i"
    using b(2,3) by auto
qed

lemma entry_okD:
  assumes "entry_ok w a"
  obtains c where "get_modem_context a w = Some c" "0 < ref_count_of a w"
    "timers_of a w = (if next_id c = 0 then [] else [next_id c])"
    "\<And>i. cancellable c = Some i \<Longrightarrow> i < length (cancellables w)"
    "objects w a \<noteq> None"
proof -
  from assms obtain c where c: "get_modem_context a w = Some c"
    by (auto simp: entry_ok_def split: option.splits)
  with assms have "0 < ref_count_of a w"
    "timers_of a w = (if next_id c = 0 then [] else [next_id c])"
    "\<And>i. cancellable c = Some i \<Longrightarrow> i < length (cancellables w)"
    by (simp_all add: entry_ok_def)
  then show ?thesis using that c get_modem_context_alive[OF c] by blast
qed

lemma cancellable_of_ctx: "get_modem_context a w = Some c \<Longrightarrow> cancellable_of a w = cancellable c"
  by (simp add: cancellable_of_def)


lemma timestamp_of_kick_started:
  assumes "get_modem_context a w = Some c"
  shows "timestamp_of b (kick_started a c w) = timestamp_of b w"
  using assms by (auto simp: timestamp_of_def views)

text \<open>The kick of one entry, seen from another entry.\<close>

lemma kick_started_other:
  assumes ok: "entries_ok w as" and a: "a \<in> set as" and b: "b \<in> set as" and ne: "b \<noteq> a"
    and c: "get_modem_context a w = Some c"
  shows "get_modem_context b (kick_started a c w) = get_modem_context b w"
    and "timers_of b (kick_started a c w) = timers_of b w"
    and "g_cancellable_is_cancelled (cancellable_of b w) (kick_started a c w)
           = g_cancellable_is_cancelled (cancellable_of b w) w"
proof -
  note ea = entries_okD(1,2)[OF ok a]
  from ea(2) obtain c0 where c0: "get_modem_context a w = Some c0"
    "timers_of a w = (if next_id c0 = 0 then [] else [next_id c0])"
    by (rule entry_okD) blast
  have cc: "c0 = c" using c c0(1) by simp
  note c0 = c0[unfolded cc]
  show "get_modem_context b (kick_started a c w) = get_modem_context b w"
    using ne by (simp add: views)
  have "next_id c \<notin> set (timers_of b w)" if "next_id c \<noteq> 0"
    using timers_disjoint[OF ea(1), of "next_id c" a b] c0(2) ne that by simp
  then show "timers_of b (kick_started a c w) = timers_of b w"
    using ne by (simp add: views)
  show "g_cancellable_is_cancelled (cancellable_of b w) (kick_started a c w)
           = g_cancellable_is_cancelled (cancellable_of b w) w"
  proof (cases "cancellable_of b w")
    case None
    then show ?thesis by (simp add: g_cancellable_is_cancelled_def)
  next
    case (Some j)
    have "cancellable c \<noteq> Some j"
      using entries_okD(3)[OF ok b a ne Some] cancellable_of_ctx[OF c] by simp
    then show ?thesis
      using Some
      by (auto simp: g_cancellable_is_cancelled_def views nth_append split: option.splits)
  qed
qed

lemma kick_started_armed:
  assumes ok: "sources_ok w" and e: "entry_ok w a" and c: "get_modem_context a w = Some c"
  shows "op_armed a MODEM_OP_STATE_DISABLE 0 (kick_started a c w)"
    and "entry_ok (kick_started a c w) a"
    and "cancellable_of a (kick_started a c w) = Some (length (cancellables w))"
proof -
  from e obtain c0 where c0: "get_modem_context a w = Some c0" "0 < ref_count_of a w"
    "timers_of a w = (if next_id c0 = 0 then [] else [next_id c0])"
    "objects w a \<noteq> None"
    by (rule entry_okD) blast
  have cc: "c0 = c" using c c0(1) by simp
  note c0 = c0[unfolded cc]
  let ?w' = "kick_started a c w"
  let ?c' = "c\<lparr>cancellable := Some (length (cancellables w)),
               op_state := MODEM_OP_STATE_DISABLE, next_id := next_source w, tries := 0\<rparr>"
  have ctx: "get_modem_context a ?w' = Some ?c'"
    using c0(4) by (simp add: views)
  have tm: "timers_of a ?w' = [next_source w]"
    using c0(3) by (simp add: views)
  have nz: "next_source w \<noteq> 0"
    using ok by (rule sources_ok_fresh)
  have len: "length (cancellables ?w') = Suc (length (cancellables w))"
    by (simp add: views split: option.splits)
  have nc: "\<not> g_cancellable_is_cancelled (Some (length (cancellables w))) ?w'"
    by (simp add: g_cancellable_is_cancelled_def views nth_append split: option.splits)
  show "op_armed a MODEM_OP_STATE_DISABLE 0 ?w'"
    using sources_ok_kick_started[OF ok] ctx tm nz nc c0(2)
    by (simp add: op_armed_def views)
  show "entry_ok ?w' a"
    using ctx tm nz c0(2) len by (simp add: entry_ok_def views)
  show "cancellable_of a ?w' = Some (length (cancellables w))"
    using ctx by (simp add: cancellable_of_def)
qed

lemma entries_ok_kick_started:
  assumes ok: "entries_ok w as" and a: "a \<in> set as" and c: "get_modem_context a w = Some c"
  shows "entries_ok (kick_started a c w) as"
proof -
  let ?w' = "kick_started a c w"
  note ea = entries_okD(1,2)[OF ok a]
  have len: "length (cancellables w) < length (cancellables ?w')"
    by (simp add: views split: option.splits)
  have other: "entry_ok ?w' b \<and> cancellable_of b ?w' = cancellable_of b w
               \<and> cancellable_of b w \<noteq> Some (length (cancellables w))"
    if b: "b \<in> set as" and ne: "b \<noteq> a" for b
  proof -
    from entries_okD(2)[OF ok b] obtain cb where cb: "get_modem_context b w = Some cb"
      "0 < ref_count_of b w" "timers_of b w = (if next_id cb = 0 then [] else [next_id cb])"
      "\<And>i. cancellable cb = Some i \<Longrightarrow> i < length (cancellables w)"
      by (rule entry_okD) blast
    note k = kick_started_other[OF ok a b ne c]
    have "entry_ok ?w' b"
      using cb len k(1,2) by (auto simp: entry_ok_def views split: option.splits)
    moreover have "cancellable_of b ?w' = cancellable_of b w"
      using k(1) by (simp add: cancellable_of_def)
    moreover have "cancellable_of b w \<noteq> Some (length (cancellables w))"
      using cb(1,4) by (auto simp: cancellable_of_def)
    ultimately show ?thesis by simp
  qed
  note self = kick_started_armed(2,3)[OF ea c]
  have e: "entry_ok ?w' b" if "b \<in> set as" for b
    using that other self(1) by (cases "b = a") simp_all
  have p: "x = y \<or> cancellable_of x ?w' = None \<or> cancellable_of x ?w' \<noteq> cancellable_of y ?w'"
    if x: "x \<in> set as" and y: "y \<in> set as" for x y
  proof (cases "x = y")
    case True
    then show ?thesis by simp
  next
    case False
    consider "x = a" "y \<noteq> a" | "x \<noteq> a" "y = a" | "x \<noteq> a" "y \<noteq> a"
      using False by blast
    then show ?thesis
    proof cases
      case 1
      then show ?thesis using other[OF y] self(2) by auto
    next
      case 2
      then show ?thesis using other[OF x] self(2) by auto
    next
      case 3
      have "cancellable_of x w = None \<or> cancellable_of x w \<noteq> cancellable_of y w"
        using entries_okD(3)[OF ok x y False] by (cases "cancellable_of x w") auto
      then show ?thesis using other[OF x 3(1)] other[OF y 3(2)] by simp
    qed
  qed
  show ?thesis
    using sources_ok_kick_started[OF ea(1)] e p
    by (simp add: entries_ok_def list_all_iff)
qed

text \<open>One iteration of the sweep.\<close>

lemma reset_poll_modem_cases:
  assumes ok: "entries_ok w as" and a: "a \<in> set as"
  obtains c where "get_modem_context a w = Some c"
    "reset_poll_modem False a w = Inr (if kick_due a w then kick_started a c w else w)"
proof -
  from entries_okD(2)[OF ok a] obtain c where c: "get_modem_context a w = Some c"
    by (rule entry_okD) blast
  show ?thesis
    using that[OF c] reset_poll_modem_kick[OF c] reset_poll_modem_skip[OF c] by simp
qed

lemma reset_poll_modem_ok:
  assumes ok: "entries_ok w as" and a: "a \<in> set as"
  shows "\<exists>w'. reset_poll_modem False a w = Inr w' \<and> entries_ok w' as
          \<and> modems w' = modems w \<and> calls w' = calls w
          \<and> monotonic_time w' = monotonic_time w
          \<and> next_source w \<le> next_source w'
          \<and> length (cancellables w) \<le> length (cancellables w')
          \<and> (\<forall>b. timestamp_of b w' = timestamp_of b w)
          \<and> (\<forall>i < length (cancellables w). cancellables w ! i \<longrightarrow> cancellables w' ! i)"
proof -
  from ok a obtain c where c: "get_modem_context a w = Some c"
    "reset_poll_modem False a w = Inr (if kick_due a w then kick_started a c w else w)"
    by (rule reset_poll_modem_cases)
  show ?thesis
  proof (cases "kick_due a w")
    case False
    then show ?thesis using c(2) ok by simp
  next
    case True
    have "\<forall>i < length (cancellables w). cancellables w ! i
            \<longrightarrow> cancellables (kick_started a c w) ! i"
      by (auto simp: views nth_append nth_update_True split: option.splits)
    then show ?thesis
      using True c(2) entries_ok_kick_started[OF ok a c(1)] timestamp_of_kick_started[OF c(1)]
      by (simp add: views split: option.splits)
  qed
qed






text \<open>The sweep of the DEBUG build: the timestamp is overwritten, then the test runs.\<close>

lemma debug_timestamp_views [views]:
  "modems (debug_timestamp obj w) = modems w"
  "sources (debug_timestamp obj w) = sources w"
  "next_source (debug_timestamp obj w) = next_source w"
  "calls (debug_timestamp obj w) = calls w"
  "cancellables (debug_timestamp obj w) = cancellables w"
  "monotonic_time (debug_timestamp obj w) = monotonic_time w"
  "(objects (debug_timestamp obj w) a = None) = (objects w a = None)"
  "ref_count_of a (debug_timestamp obj w) = ref_count_of a w"
  "registration_state_of a (debug_timestamp obj w) = registration_state_of a w"
  "handlers_of a (debug_timestamp obj w) = handlers_of a w"
  by (simp_all add: debug_timestamp_def views split: option.splits)

lemma debug_timestamp_context:
  "get_modem_context a (debug_timestamp obj w) =
     (if a = obj
      then map_option (\<lambda>c. c\<lparr>timestamp := monotonic_time w - 700000000\<rparr>)
             (get_modem_context obj w)
      else get_modem_context a w)"
  using get_modem_context_alive[of obj w]
  by (auto simp: debug_timestamp_def views g_get_monotonic_time_def G_USEC_PER_SEC_def
      split: option.splits)

lemma debug_timestamp_frame:
  "timers_of a (debug_timestamp obj w) = timers_of a w"
  "sources_ok (debug_timestamp obj w) = sources_ok w"
  "g_cancellable_is_cancelled x (debug_timestamp obj w) = g_cancellable_is_cancelled x w"
  "cancellable_of a (debug_timestamp obj w) = cancellable_of a w"
  "entry_ok (debug_timestamp obj w) a = entry_ok w a"
proof -
  show tm: "timers_of a (debug_timestamp obj w) = timers_of a w" for a
    by (simp add: timers_of_def views)
  show "sources_ok (debug_timestamp obj w) = sources_ok w"
    by (simp add: sources_ok_def views)
  show "g_cancellable_is_cancelled x (debug_timestamp obj w) = g_cancellable_is_cancelled x w"
    by (simp add: g_cancellable_is_cancelled_def views split: option.splits)
  show co: "cancellable_of a (debug_timestamp obj w) = cancellable_of a w"
    by (cases "get_modem_context obj w")
      (simp_all add: cancellable_of_def debug_timestamp_context)
  show "entry_ok (debug_timestamp obj w) a = entry_ok w a"
    by (cases "get_modem_context obj w")
      (auto simp: entry_ok_def debug_timestamp_context views tm split: option.splits)
qed

lemma entries_ok_debug_timestamp:
  "entries_ok (debug_timestamp obj w) as = entries_ok w as"
proof -
  have "entry_ok (debug_timestamp obj w) = entry_ok w"
    by (rule ext) (simp add: debug_timestamp_frame)
  then show ?thesis
    by (simp add: entries_ok_def debug_timestamp_frame)
qed

lemma timestamp_of_debug_timestamp:
  "timestamp_of a (debug_timestamp obj w) =
     (if a = obj
      then map_option (\<lambda>c. monotonic_time w - 700000000) (get_modem_context obj w)
      else timestamp_of a w)"
  by (simp add: timestamp_of_def debug_timestamp_context option.map_comp comp_def)


text \<open>An iteration in the DEBUG build is the overwriting of the timestamp followed by
  an iteration of the production build: 700 seconds exceed both kick intervals.\<close>

lemma reset_poll_modem_debug:
  "reset_poll_modem True a w = reset_poll_modem False a (debug_timestamp a w)"
proof (cases "get_modem_context a w")
  case None
  then show ?thesis by (simp add: reset_poll_modem_def debug_timestamp_def)
next
  case (Some c)
  let ?c = "c\<lparr>timestamp := monotonic_time w - 700000000\<rparr>"
  have w0: "debug_timestamp a w = set_modem_context a ?c w"
    using Some by (simp add: debug_timestamp_def g_get_monotonic_time_def G_USEC_PER_SEC_def)
  have c0: "get_modem_context a (set_modem_context a ?c w) = Some ?c"
    using get_modem_context_alive[OF Some] by (simp add: views)
  show ?thesis
    unfolding w0 using Some c0
    by (simp add: reset_poll_modem_def Let_def g_get_monotonic_time_def views
        KICK_INTERVAL_SECONDS_def G_USEC_PER_SEC_def)
qed

lemma reset_poll_modem_debug_ok:
  assumes ok: "entries_ok w as" and a: "a \<in> set as"
  shows "\<exists>w'. reset_poll_modem True a w = Inr w' \<and> entries_ok w' as
          \<and> modems w' = modems w \<and> calls w' = calls w
          \<and> monotonic_time w' = monotonic_time w
          \<and> next_source w \<le> next_source w'
          \<and> length (cancellables w) \<le> length (cancellables w')
          \<and> (\<forall>b. timestamp_of b w' =
                (if b = a then Some (monotonic_time w - 700000000) else timestamp_of b w))
          \<and> (\<forall>i < length (cancellables w). cancellables w ! i \<longrightarrow> cancellables w' ! i)"
proof -
  let ?w0 = "debug_timestamp a w"
  have ok0: "entries_ok ?w0 as"
    using ok by (simp add: entries_ok_debug_timestamp)
  from entries_okD(2)[OF ok a] obtain c where c: "get_modem_context a w = Some c"
    by (rule entry_okD) blast
  from reset_poll_modem_ok[OF ok0 a]
  obtain w' where w': "reset_poll_modem False a ?w0 = Inr w'" "entries_ok w' as"
    "modems w' = modems ?w0" "calls w' = calls ?w0" "monotonic_time w' = monotonic_time ?w0"
    "next_source ?w0 \<le> next_source w'" "length (cancellables ?w0) \<le> length (cancellables w')"
    "\<forall>b. timestamp_of b w' = timestamp_of b ?w0"
    "\<forall>i < length (cancellables ?w0). cancellables ?w0 ! i \<longrightarrow> cancellables w' ! i"
    by blast
  have ts: "\<forall>b. timestamp_of b w' =
                (if b = a then Some (monotonic_time w - 700000000) else timestamp_of b w)"
    using w'(8) c by (simp add: timestamp_of_debug_timestamp)
  show ?thesis
    using w'(1,2,3,4,5,6,7,9) ts
    by (intro exI[of _ w']) (simp add: reset_poll_modem_debug views)
qed

lemma reset_poll_loop_debug_ok:
  assumes "entries_ok w as" "snd ` set kvs \<subseteq> set as"
  shows "\<exists>w'. reset_poll_loop True kvs w = Inr w' \<and> entries_ok w' as
          \<and> modems w' = modems w \<and> calls w' = calls w
          \<and> monotonic_time w' = monotonic_time w
          \<and> next_source w \<le> next_source w'
          \<and> length (cancellables w) \<le> length (cancellables w')
          \<and> (\<forall>b. timestamp_of b w' =
                (if b \<in> snd ` set kvs then Some (monotonic_time w - 700000000)
                 else timestamp_of b w))
          \<and> (\<forall>i < length (cancellables w). cancellables w ! i \<longrightarrow> cancellables w' ! i)"
  using assms
proof (induction kvs arbitrary: w)
  case Nil
  then show ?case by simp
next
  case (Cons kv kvs)
  have a: "snd kv \<in> set as" and rest: "snd ` set kvs \<subseteq> set as"
    using Cons.prems(2) by auto
  from reset_poll_modem_debug_ok[OF Cons.prems(1) a]
  obtain w1 where w1: "reset_poll_modem True (snd kv) w = Inr w1" "entries_ok w1 as"
    "modems w1 = modems w" "calls w1 = calls w" "monotonic_time w1 = monotonic_time w"
    "next_source w \<le> next_source w1" "length (cancellables w) \<le> length (cancellables w1)"
    "\<forall>b. timestamp_of b w1 =
        (if b = snd kv then Some (monotonic_time w - 700000000) else timestamp_of b w)"
    "\<forall>i < length (cancellables w). cancellables w ! i \<longrightarrow> cancellables w1 ! i"
    by blast
  from Cons.IH[OF w1(2) rest]
  obtain w' where w': "reset_poll_loop True kvs w1 = Inr w'" "entries_ok w' as"
    "modems w' = modems w1" "calls w' = calls w1" "monotonic_time w' = monotonic_time w1"
    "next_source w1 \<le> next_source w'" "length (cancellables w1) \<le> length (cancellables w')"
    "\<forall>b. timestamp_of b w' =
        (if b \<in> snd ` set kvs then Some (monotonic_time w1 - 700000000)
         else timestamp_of b w1)"
    "\<forall>i < length (cancellables w1). cancellables w1 ! i \<longrightarrow> cancellables w' ! i"
    by blast
  have run: "reset_poll_loop True (kv # kvs) w = Inr w'"
    using w1(1) w'(1) by simp
  have mono: "\<forall>i < length (cancellables w). cancellables w ! i \<longrightarrow> cancellables w' ! i"
    using w1(7,9) w'(9) by (meson less_le_trans)
  have ts: "\<forall>b. timestamp_of b w' =
                (if b \<in> snd ` set (kv # kvs) then Some (monotonic_time w - 700000000)
                 else timestamp_of b w)"
    using w1(5,8) w'(8) by auto
  show ?case
    using run mono ts w1(2,3,4,5,6,7) w'(2,3,4,5,6,7)
    by (intro exI[of _ w']) simp
qed






lemmas model_defs = handle_object_added_def modem_registration_changed_def g_hash_table_insert_def
  g_hash_table_remove_def handle_object_removed_def emit_object_removed_def
  modem_context_new_def set_modem_context_def get_modem_context_def g_object_ref_def
  set_ref_count_def ref_count_of_def g_object_unref_def g_object_finalize_def
  modem_context_free_def modem_context_cancel_op_def g_cancellable_cancel_def
  g_cancellable_new_def g_cancellable_is_cancelled_def g_source_remove_def
  g_timeout_add_seconds_def g_get_monotonic_time_def modem_schedule_op_state_def
  modem_schedule_retry_op_state_def modem_enable_ready_def set_power_state_low_ready_def
  modem_disable_ready_def mm_modem_call_def modem_op_state_run_def reset_poll_modem_def
  reset_poll_cb_def timeout_dispatch_def call_finished_def registration_state_notify_def
  set_registration_state_def g_signal_connect_def g_object_set_data_full_def
  KICK_INTERVAL_SECONDS_def G_USEC_PER_SEC_def
  outcome_view_def kick_view_def handlers_of_def timestamp_of_def timers_of_def
  registration_state_of_def cancellable_of_def
  world0_def modem0_def world1_def AList.delete_eq

lemmas notion_defs = op_armed_def op_calling_def sources_ok_def entry_ok_def entries_ok_def
  registry_ok_def monitored_def stuck_state_def spec_stuck_since_def kick_due_def
  step_succeeds_def op_released_def

text \<open>
  C1. The retry counter counts the failures of the whole operation: after any outcomes
  with at most two successes and at most three failures the operation waits at the step
  its successes have reached, with as many tries as it has had failures; a fourth failure
  makes the counter 4, which exceeds 3, and sends the operation to the finish step; there
  its timer releases it.
\<close>

theorem retry_budget_spans_steps:
  assumes "op_armed obj MODEM_OP_STATE_DISABLE 0 w"
    and "length (filter id oks) \<le> 2" and "length (filter Not oks) \<le> 3"
  shows "\<exists>w1. kick_steps obj oks w = Inr w1
          \<and> op_armed obj (step_number (length (filter id oks)))
                (of_nat (length (filter Not oks))) w1
          \<and> (length (filter Not oks) = 3 \<longrightarrow>
               (\<exists>w2 c2 w3 c3. kick_steps obj (oks @ [False]) w = Inr w2
                  \<and> get_modem_context obj w2 = Some c2
                  \<and> tries c2 = 4 \<and> 3 < tries c2
                  \<and> op_armed obj MODEM_OP_STATE_FINISH 4 w2
                  \<and> timeout_dispatch (next_id c2) w2 = Inr w3
                  \<and> get_modem_context obj w3 = Some c3
                  \<and> op_state c3 = MODEM_OP_STATE_NONE \<and> tries c3 = 0
                  \<and> cancellable c3 = None \<and> next_id c3 = 0
                  \<and> timers_of obj w3 = [] \<and> calls w3 = calls w))"
proof -
  have start: "op_armed obj (step_number 0) (of_nat 0) w"
    using assms(1) by simp
  from kick_steps_invariant[OF start, of oks] assms(2,3)
  obtain w1 where w1: "kick_steps obj oks w = Inr w1"
    "op_armed obj (step_number (length (filter id oks)))
        (of_nat (length (filter Not oks))) w1"
    "calls w1 = calls w"
    by auto
  have last: "\<exists>w2 c2 w3 c3. kick_steps obj (oks @ [False]) w = Inr w2
                  \<and> get_modem_context obj w2 = Some c2
                  \<and> tries c2 = 4 \<and> 3 < tries c2
                  \<and> op_armed obj MODEM_OP_STATE_FINISH 4 w2
                  \<and> timeout_dispatch (next_id c2) w2 = Inr w3
                  \<and> get_modem_context obj w3 = Some c3
                  \<and> op_state c3 = MODEM_OP_STATE_NONE \<and> tries c3 = 0
                  \<and> cancellable c3 = None \<and> next_id c3 = 0
                  \<and> timers_of obj w3 = [] \<and> calls w3 = calls w"
    if three: "length (filter Not oks) = 3"
  proof -
    have armed1: "op_armed obj (step_number (length (filter id oks))) 3 w1"
      using w1(2) three by simp
    obtain kind where act: "spec_action (step_number (length (filter id oks))) = Some kind"
      using step_number_action[OF assms(2)] by blast
    from kick_step[OF armed1 act, of False "[]"]
    obtain w2 where w2: "kick_steps obj [False] w1 = Inr w2"
      "op_armed obj MODEM_OP_STATE_FINISH 4 w2" "calls w2 = calls w1"
      by auto
    from w2(2) obtain c2 where c2: "get_modem_context obj w2 = Some c2" "tries c2 = 4"
      by (rule op_armedD)
    note r = finish_releases[OF w2(2) c2(1)]
    have run: "kick_steps obj (oks @ [False]) w = Inr w2"
      using w1(1) w2(1) by (simp add: kick_steps_append)
    have "3 < tries c2" using c2(2) by simp
    then show ?thesis
      using run c2 w2(2,3) w1(3) r(1,2,3,4) by simp
  qed
  show ?thesis using w1(1,2) last by blast
qed

text \<open>
  C4. The steps succeed in the order disable, low power, enable, finish: a waiting
  operation whose timer fires sends the request of its step, a success of that request
  leaves it waiting at the next step, and at the finish step the timer sends nothing and
  releases the operation.
\<close>

theorem steps_succeed_in_order:
  "(op_armed obj MODEM_OP_STATE_DISABLE k w
      \<longrightarrow> step_succeeds obj w CALL_DISABLE MODEM_OP_STATE_LOW_POWER)
   \<and> (op_armed obj MODEM_OP_STATE_LOW_POWER k w
      \<longrightarrow> step_succeeds obj w CALL_SET_POWER_STATE_LOW MODEM_OP_STATE_ENABLE)
   \<and> (op_armed obj MODEM_OP_STATE_ENABLE k w
      \<longrightarrow> step_succeeds obj w CALL_ENABLE MODEM_OP_STATE_FINISH)
   \<and> (op_armed obj MODEM_OP_STATE_FINISH k w \<longrightarrow> op_released obj w)"
proof -
  have step: "step_succeeds obj w kind (spec_next_step st)"
    if armed: "op_armed obj st k w" and act: "spec_action st = Some kind" for st kind
  proof -
    from armed obtain c where c: "get_modem_context obj w = Some c" "tries c = k"
      by (rule op_armedD)
    note f = timer_fires[OF armed c(1) act]
    note a = call_answered[OF f(2) f(8), of True]
    from f(2) have t0: "timers_of obj (g_source_remove (next_id c)
        (mm_modem_call kind (cancellable c) obj (set_modem_context obj (c\<lparr>next_id := 0\<rparr>) w))) = []"
      by (rule op_callingD)
    show ?thesis
      using c f(1,3) t0 a(1,2,4)
      by (simp add: step_succeeds_def)
  qed
  have fin: "op_released obj w" if armed: "op_armed obj MODEM_OP_STATE_FINISH k w"
  proof -
    from armed obtain c where c: "get_modem_context obj w = Some c"
      "\<not> g_cancellable_is_cancelled (cancellable c) w"
      by (rule op_armedD)
    note r = finish_releases[OF armed c(1)]
    have "g_cancellable_is_cancelled (Some i) w'" if "cancellable c = Some i"
      and "i < length (cancellables w)"
      and "w' = g_source_remove (next_id c)
                  (set_modem_context obj
                     (c\<lparr>op_state := MODEM_OP_STATE_NONE, cancellable := None,
                        next_id := 0, tries := 0\<rparr>)
                     (snd (modem_context_cancel_op (c\<lparr>next_id := 0\<rparr>) w)))" for i w'
      using that
      by (simp add: views g_cancellable_is_cancelled_def split: option.splits)
    then show ?thesis
      using c(1) r(1,2,3,4)
      by (simp add: op_released_def split: option.splits)
  qed
  show ?thesis using step[of MODEM_OP_STATE_DISABLE] step[of MODEM_OP_STATE_LOW_POWER]
      step[of MODEM_OP_STATE_ENABLE] fin by simp
qed

lemmas example_defs = world_run_def world2_def world_after_def world_with_def

theorem retry_budget_spans_steps_witness:
  "op_armed 0 MODEM_OP_STATE_DISABLE 0 world2
   \<and> length (filter id [False, True, False, False]) \<le> 2
   \<and> length (filter Not [False, True, False, False]) \<le> 3
   \<and> (\<exists>w1. kick_steps 0 [False, True, False, False] world2 = Inr w1
          \<and> op_armed 0 MODEM_OP_STATE_LOW_POWER 3 w1
          \<and> (\<exists>w2 c2 w3 c3. kick_steps 0 ([False, True, False, False] @ [False]) world2 = Inr w2
                  \<and> get_modem_context 0 w2 = Some c2
                  \<and> tries c2 = 4 \<and> 3 < tries c2
                  \<and> op_armed 0 MODEM_OP_STATE_FINISH 4 w2
                  \<and> timeout_dispatch (next_id c2) w2 = Inr w3
                  \<and> get_modem_context 0 w3 = Some c3
                  \<and> op_state c3 = MODEM_OP_STATE_NONE \<and> tries c3 = 0
                  \<and> cancellable c3 = None \<and> next_id c3 = 0
                  \<and> timers_of 0 w3 = [] \<and> calls w3 = calls world2))"
proof -
  have h1: "op_armed 0 MODEM_OP_STATE_DISABLE 0 world2"
    by (simp add: example_defs model_defs notion_defs Let_def)
  have h2: "length (filter id [False, True, False, False]) \<le> 2"
    and h3: "length (filter Not [False, True, False, False]) \<le> 3"
    by simp_all
  show ?thesis
    using h1 retry_budget_spans_steps[OF h1 h2 h3] by (simp add: numeral_2_eq_2)
qed

theorem steps_succeed_in_order_witness:
  "op_armed 0 MODEM_OP_STATE_DISABLE 0 (world_after [])
   \<and> step_succeeds 0 (world_after []) CALL_DISABLE MODEM_OP_STATE_LOW_POWER
   \<and> op_armed 0 MODEM_OP_STATE_LOW_POWER 0 (world_after [True])
   \<and> step_succeeds 0 (world_after [True]) CALL_SET_POWER_STATE_LOW MODEM_OP_STATE_ENABLE
   \<and> op_armed 0 MODEM_OP_STATE_ENABLE 0 (world_after [True, True])
   \<and> step_succeeds 0 (world_after [True, True]) CALL_ENABLE MODEM_OP_STATE_FINISH
   \<and> op_armed 0 MODEM_OP_STATE_FINISH 0 (world_after [True, True, True])
   \<and> op_released 0 (world_after [True, True, True])"
proof -
  have h0: "op_armed 0 MODEM_OP_STATE_DISABLE 0 (world_after [])"
    by (simp add: example_defs model_defs notion_defs Let_def)
  have h1: "op_armed 0 MODEM_OP_STATE_LOW_POWER 0 (world_after [True])"
    by (simp add: example_defs model_defs notion_defs Let_def)
  have h2: "op_armed 0 MODEM_OP_STATE_ENABLE 0 (world_after [True, True])"
    by (simp add: example_defs model_defs notion_defs Let_def)
  have h3: "op_armed 0 MODEM_OP_STATE_FINISH 0 (world_after [True, True, True])"
    by (simp add: example_defs model_defs notion_defs Let_def)
  show ?thesis
    using h0 h1 h2 h3
      steps_succeed_in_order[of 0 0 "world_after []"]
      steps_succeed_in_order[of 0 0 "world_after [True]"]
      steps_succeed_in_order[of 0 0 "world_after [True, True]"]
      steps_succeed_in_order[of 0 0 "world_after [True, True, True]"]
    by blast
qed



lemma sweep_runs_debug:
  assumes "registry_ok w"
  obtains w' where "reset_poll_cb True w = Inr w'" "registry_ok w'" "modems w' = modems w"
    "calls w' = calls w" "monotonic_time w' = monotonic_time w"
    "length (cancellables w) \<le> length (cancellables w')"
    "\<forall>b. timestamp_of b w' =
        (if b \<in> snd ` set (modems w) then Some (monotonic_time w - 700000000)
         else timestamp_of b w)"
proof -
  have ok: "entries_ok w (map snd (modems w))"
    using assms by (simp add: registry_ok_def)
  from reset_poll_loop_debug_ok[OF ok, of "modems w"]
  obtain w' where w': "reset_poll_loop True (modems w) w = Inr w'"
    "entries_ok w' (map snd (modems w))" "modems w' = modems w" "calls w' = calls w"
    "monotonic_time w' = monotonic_time w"
    "length (cancellables w) \<le> length (cancellables w')"
    "\<forall>b. timestamp_of b w' =
        (if b \<in> snd ` set (modems w) then Some (monotonic_time w - 700000000)
         else timestamp_of b w)"
    by auto
  show ?thesis
    using that[of w'] w' by (simp add: reset_poll_cb_def registry_ok_def)
qed








lemma keeps_dispatch:
  assumes "kick_event e" "dbg \<longrightarrow> e \<noteq> ResetPoll" "dispatch dbg e w = Inr w'"
  shows "keeps_timestamps w w'"
proof (cases e)
  case (Elapse usec)
  then show ?thesis
    using assms(3) by (auto intro: keeps_timestamps_objects)
next
  case ResetPoll
  then show ?thesis
    using assms(2,3) keeps_reset_poll_loop by (simp add: reset_poll_cb_def)
next
  case (Timeout tag)
  then show ?thesis using assms(3) keeps_timeout by simp
next
  case (CallFinished n ok)
  then show ?thesis using assms(3) keeps_call_finished by simp
qed (use assms(1) in simp_all)

lemma keeps_main_loop:
  "list_all kick_event es \<Longrightarrow> dbg \<longrightarrow> ResetPoll \<notin> set es
     \<Longrightarrow> main_loop dbg es w = Inr w' \<Longrightarrow> keeps_timestamps w w'"
proof (induction es arbitrary: w)
  case Nil
  then show ?case by simp
next
  case (Cons e es)
  then obtain w1 where w1: "dispatch dbg e w = Inr w1" "main_loop dbg es w1 = Inr w'"
    by (auto simp: bindA_Inr_iff)
  have "keeps_timestamps w w1"
    using Cons.prems(1,2) w1(1) by (intro keeps_dispatch[of e dbg]) auto
  moreover have "keeps_timestamps w1 w'"
    using Cons.IH[OF _ _ w1(2)] Cons.prems(1,2) by simp
  ultimately show ?case by (rule keeps_timestamps_trans)
qed

text \<open>
  C10, as the code has it. The kick state machine does not write the timestamp.
  Cancelling an operation returns the context with its timestamp and changes no context.
  In either build, through any sequence of timer callbacks and completion callbacks, with
  time passing in between, every context that still exists has the timestamp it had; in
  the production build this holds with sweeps in the sequence too, so that the timestamp
  of a modem survives the start, the steps, the retries, the end and the restart of its
  operations. In the DEBUG build the sweep writes the timestamp: after a sweep every
  modem of the registry has as timestamp the time 700 seconds before that sweep.
\<close>

theorem kick_machine_keeps_timestamp:
  "timestamp (fst (modem_context_cancel_op c w)) = timestamp c
   \<and> keeps_timestamps w (snd (modem_context_cancel_op c w))
   \<and> (list_all kick_event es \<and> (dbg \<longrightarrow> ResetPoll \<notin> set es)
        \<longrightarrow> main_loop dbg es w = Inr w' \<longrightarrow> keeps_timestamps w w')
   \<and> (registry_ok u \<and> (p, obj) \<in> set (modems u)
        \<longrightarrow> (\<exists>u'. reset_poll_cb True u = Inr u'
               \<and> timestamp_of obj u' = Some (g_get_monotonic_time u - 700 * G_USEC_PER_SEC)))"
proof -
  have sweep: "\<exists>u'. reset_poll_cb True u = Inr u'
               \<and> timestamp_of obj u' = Some (g_get_monotonic_time u - 700 * G_USEC_PER_SEC)"
    if h: "registry_ok u \<and> (p, obj) \<in> set (modems u)"
  proof -
    from h obtain u' where u': "reset_poll_cb True u = Inr u'"
      "\<forall>b. timestamp_of b u' =
        (if b \<in> snd ` set (modems u) then Some (monotonic_time u - 700000000)
         else timestamp_of b u)"
      by (auto elim: sweep_runs_debug)
    have "obj \<in> snd ` set (modems u)"
      using h by force
    then have "timestamp_of obj u' = Some (g_get_monotonic_time u - 700 * G_USEC_PER_SEC)"
      using u'(2) by (simp add: g_get_monotonic_time_def G_USEC_PER_SEC_def)
    then show ?thesis using u'(1) by simp
  qed
  show ?thesis
    using keeps_main_loop[of es dbg w w'] keeps_cancel_op[of w c] sweep
    by (simp add: timestamp_cancel_op)
qed

theorem kick_machine_keeps_timestamp_witness:
  "list_all kick_event [Elapse 605000001, ResetPoll, Timeout 1, CallFinished 0 False, Timeout 2,
      CallFinished 0 True, Elapse 300000000, ResetPoll, Timeout 4]
   \<and> main_loop False [Elapse 605000001, ResetPoll, Timeout 1, CallFinished 0 False, Timeout 2,
      CallFinished 0 True, Elapse 300000000, ResetPoll, Timeout 4] world1
      = Inr (world_run [Elapse 605000001, ResetPoll, Timeout 1, CallFinished 0 False, Timeout 2,
      CallFinished 0 True, Elapse 300000000, ResetPoll, Timeout 4])
   \<and> keeps_timestamps world1 (world_run [Elapse 605000001, ResetPoll, Timeout 1,
        CallFinished 0 False, Timeout 2, CallFinished 0 True, Elapse 300000000, ResetPoll,
        Timeout 4])
   \<and> timestamp_of 0 world1 = Some 1000
   \<and> timestamp_of 0 (world_run [Elapse 605000001, ResetPoll, Timeout 1,
        CallFinished 0 False, Timeout 2, CallFinished 0 True, Elapse 300000000, ResetPoll,
        Timeout 4]) = Some 1000
   \<and> list_all kick_event [Timeout 1, CallFinished 0 False, Timeout 2, CallFinished 0 True]
   \<and> ResetPoll \<notin> set [Timeout 1, CallFinished 0 False, Timeout 2, CallFinished 0 True]
   \<and> main_loop True [Timeout 1, CallFinished 0 False, Timeout 2, CallFinished 0 True] world2
      = Inr (world_after [False, True])
   \<and> keeps_timestamps world2 (world_after [False, True])
   \<and> registry_ok world1
   \<and> (''/org/freedesktop/ModemManager1/Modem/0'', 0) \<in> set (modems world1)
   \<and> (\<exists>u'. reset_poll_cb True world1 = Inr u' \<and> timestamp_of 0 u' = Some (- 699999000))"
proof -
  let ?es = "[Elapse 605000001, ResetPoll, Timeout 1, CallFinished 0 False, Timeout 2,
      CallFinished 0 True, Elapse 300000000, ResetPoll, Timeout 4]"
  let ?ds = "[Timeout 1, CallFinished 0 False, Timeout 2, CallFinished 0 True]"
  let ?p = "''/org/freedesktop/ModemManager1/Modem/0''"
  have h1: "list_all kick_event ?es" by simp
  have h2: "main_loop False ?es world1 = Inr (world_run ?es)"
    by (simp add: example_defs model_defs Let_def)
  have h3: "timestamp_of 0 world1 = Some 1000" "timestamp_of 0 (world_run ?es) = Some 1000"
    by (simp_all add: example_defs model_defs Let_def)
  have d1: "list_all kick_event ?ds" "ResetPoll \<notin> set ?ds" by simp_all
  have d2: "main_loop True ?ds world2 = Inr (world_after [False, True])"
    by (simp add: example_defs model_defs Let_def)
  have s1: "registry_ok world1" "(?p, 0) \<in> set (modems world1)"
    "g_get_monotonic_time world1 - 700 * G_USEC_PER_SEC = - 699999000"
    by (simp_all add: example_defs model_defs notion_defs Let_def)
  have r1: "keeps_timestamps world1 (world_run ?es)"
    using h1 h2 kick_machine_keeps_timestamp[of _ world1 ?es False "world_run ?es"] by blast
  have r2: "keeps_timestamps world2 (world_after [False, True])"
    using d1 d2 kick_machine_keeps_timestamp[of _ world2 ?ds True "world_after [False, True]"]
    by blast
  have r3: "\<exists>u'. reset_poll_cb True world1 = Inr u' \<and> timestamp_of 0 u' = Some (- 699999000)"
    using s1 kick_machine_keeps_timestamp[of _ _ _ _ _ world1 ?p 0] by simp
  show ?thesis
    using h1 h2 h3 d1 d2 s1(1,2) r1 r2 r3 by blast
qed

text \<open>
  C10 as stated fails in the DEBUG build: the timestamp of a modem that stays idle
  changes while no notification arrives: it is 1000 when the modem is added, the sweep that starts the
  operation makes it the time 700 seconds before that sweep, and the sweep that runs
  while the operation waits at its second step writes it again.
\<close>

theorem debug_sweep_writes_timestamp_counterexample:
  "outcome_view 0 (main_loop True [ObjectAdded 0] world0)
   = Inr ([(''/org/freedesktop/ModemManager1/Modem/0'', 0)], 2,
          Some \<lparr>path = ''/org/freedesktop/ModemManager1/Modem/0'', reg_state_changed_id = 1,
                timestamp = 1000, cancellable = None, op_state = MODEM_OP_STATE_NONE,
                next_id = 0, tries = 0\<rparr>,
          [1], [], [], [])
   \<and> outcome_view 0 (main_loop True [ObjectAdded 0, Elapse 15000000, ResetPoll] world0)
   = Inr ([(''/org/freedesktop/ModemManager1/Modem/0'', 0)], 2,
          Some \<lparr>path = ''/org/freedesktop/ModemManager1/Modem/0'', reg_state_changed_id = 1,
                timestamp = - 684999000, cancellable = Some 0,
                op_state = MODEM_OP_STATE_DISABLE, next_id = 1, tries = 0\<rparr>,
          [1], [(1, 0)], [], [False])
   \<and> outcome_view 0 (main_loop True [ObjectAdded 0, Elapse 15000000, ResetPoll,
        Elapse 10000000, Timeout 1, CallFinished 0 True, Elapse 5000000, ResetPoll] world0)
   = Inr ([(''/org/freedesktop/ModemManager1/Modem/0'', 0)], 2,
          Some \<lparr>path = ''/org/freedesktop/ModemManager1/Modem/0'', reg_state_changed_id = 1,
                timestamp = - 669999000, cancellable = Some 1,
                op_state = MODEM_OP_STATE_DISABLE, next_id = 3, tries = 0\<rparr>,
          [1], [(3, 0)], [], [True, False])"
  by (simp add: example_defs model_defs Let_def)

lemma handlers_iface: "handlers_of obj w \<noteq> [] \<Longrightarrow> registration_state_of obj w \<noteq> None"
  by (auto simp: handlers_of_def registration_state_of_def split: option.splits)

lemma registration_state_notify_eq:
  assumes "monitored obj w" "get_modem_context obj w = Some c" "monotonic_time w \<noteq> 0"
  shows "registration_state_notify obj st w =
           Inr (set_modem_context obj
                  (c\<lparr>timestamp := spec_stuck_since st (monotonic_time w) (timestamp c)\<rparr>)
                  (set_registration_state obj st w))"
proof -
  have hs: "handlers_of obj w \<noteq> []"
    using assms(1) by (simp add: monitored_def)
  have "registration_state_of obj (set_registration_state obj st w) = Some st"
    using handlers_iface[OF hs] by (simp add: views)
  then show ?thesis
    using run_notify_handlers_eq[of obj "set_registration_state obj st w" c st "handlers_of obj w"]
      assms(2,3) hs
    by (simp add: registration_state_notify_def views)
qed

lemma registration_state_notify_step:
  assumes "monitored obj w" "timestamp_of obj w = Some ts" "monotonic_time w \<noteq> 0"
  shows "\<exists>w'. registration_state_notify obj st w = Inr w' \<and> monitored obj w'
          \<and> monotonic_time w' = monotonic_time w
          \<and> timestamp_of obj w' = Some (spec_stuck_since st (monotonic_time w) ts)"
proof -
  from assms(2) obtain c where c: "get_modem_context obj w = Some c" "timestamp c = ts"
    by (auto simp: timestamp_of_def)
  have alive: "objects w obj \<noteq> None"
    using c(1) by (rule get_modem_context_alive)
  show ?thesis
    using registration_state_notify_eq[OF assms(1) c(1) assms(3), of st] assms(1) c(2) alive
    by (simp add: monitored_def views)
qed

lemma spec_stuck_since_nonzero:
  "now \<noteq> 0 \<Longrightarrow> spec_stuck_since st now ts \<noteq> 0 \<longleftrightarrow> stuck_state st"
  by (simp add: spec_stuck_since_def)

lemma notifications_run:
  assumes "monitored obj w" "0 < monotonic_time w"
  shows "\<exists>w'. main_loop dbg (notifications obj ns) w = Inr w' \<and> monitored obj w'
          \<and> 0 < monotonic_time w'
          \<and> (ns \<noteq> [] \<longrightarrow> (\<exists>ts. timestamp_of obj w' = Some ts
                              \<and> (ts \<noteq> 0 \<longleftrightarrow> stuck_state (snd (last ns)))))"
  using assms
proof (induction ns arbitrary: w)
  case Nil
  then show ?case by simp
next
  case (Cons n ns)
  let ?w0 = "w\<lparr>monotonic_time := monotonic_time w + int (fst n)\<rparr>"
  have m0: "monitored obj ?w0" "0 < monotonic_time ?w0"
    using Cons.prems by (simp_all add: monitored_def views)
  then obtain ts0 where ts0: "timestamp_of obj ?w0 = Some ts0"
    by (auto simp: monitored_def timestamp_of_def)
  from registration_state_notify_step[OF m0(1) ts0, of "snd n"] m0(2)
  obtain w1 where w1: "registration_state_notify obj (snd n) ?w0 = Inr w1" "monitored obj w1"
    "monotonic_time w1 = monotonic_time ?w0"
    "timestamp_of obj w1 = Some (spec_stuck_since (snd n) (monotonic_time ?w0) ts0)"
    by auto
  have pos1: "0 < monotonic_time w1" using w1(3) m0(2) by simp
  have here: "\<exists>ts. timestamp_of obj w1 = Some ts \<and> (ts \<noteq> 0 \<longleftrightarrow> stuck_state (snd n))"
    using w1(4) m0(2) spec_stuck_since_nonzero[of "monotonic_time ?w0" "snd n" ts0] by simp
  from Cons.IH[OF w1(2) pos1]
  obtain w' where w': "main_loop dbg (notifications obj ns) w1 = Inr w'" "monitored obj w'"
    "0 < monotonic_time w'"
    "ns \<noteq> [] \<longrightarrow> (\<exists>ts. timestamp_of obj w' = Some ts
                       \<and> (ts \<noteq> 0 \<longleftrightarrow> stuck_state (snd (last ns))))"
    by blast
  have run: "main_loop dbg (notifications obj (n # ns)) w = Inr w'"
    using w1(1) w'(1) by simp
  show ?case
  proof (cases "ns = []")
    case True
    then have "w' = w1" using w'(1) by simp
    then show ?thesis using run w1(2) pos1 here True by simp
  next
    case False
    then show ?thesis using run w'(2,3,4) by simp
  qed
qed

text \<open>
  C2. For a monitored modem, with a monotonic clock that reads positive: a notification
  makes the timestamp what the rule of the specification says (on idle or denied the
  timestamp that is there is kept, or if there is none the current time is taken; on any
  other state it becomes 0); and after every sequence of notifications, however much time
  passes between them, the timestamp is not 0 if and only if the state last notified is
  idle or denied.
\<close>

theorem stuck_timestamp_tracks_last_state:
  assumes "monitored obj w" and "0 < g_get_monotonic_time w"
    and "timestamp_of obj w = Some ts"
  shows "(\<exists>w1. registration_state_notify obj st w = Inr w1
            \<and> timestamp_of obj w1
                = Some (if stuck_state st then (if ts = 0 then g_get_monotonic_time w else ts)
                        else 0))
       \<and> (\<exists>w' ts'. main_loop dbg (notifications obj (ns @ [n])) w = Inr w'
            \<and> timestamp_of obj w' = Some ts'
            \<and> (ts' \<noteq> 0 \<longleftrightarrow> stuck_state (snd n)))"
proof -
  have pos: "0 < monotonic_time w" "monotonic_time w \<noteq> 0"
    using assms(2) by (simp_all add: g_get_monotonic_time_def)
  from registration_state_notify_step[OF assms(1,3) pos(2), of st]
  have one: "\<exists>w1. registration_state_notify obj st w = Inr w1
            \<and> timestamp_of obj w1
                = Some (if stuck_state st then (if ts = 0 then g_get_monotonic_time w else ts)
                        else 0)"
    by (auto simp: spec_stuck_since_def g_get_monotonic_time_def)
  from notifications_run[OF assms(1) pos(1), of dbg "ns @ [n]"]
  have many: "\<exists>w' ts'. main_loop dbg (notifications obj (ns @ [n])) w = Inr w'
            \<and> timestamp_of obj w' = Some ts' \<and> (ts' \<noteq> 0 \<longleftrightarrow> stuck_state (snd n))"
    by auto
  show ?thesis using one many by simp
qed

theorem stuck_timestamp_tracks_last_state_witness:
  "monitored 0 world1 \<and> 0 < g_get_monotonic_time world1 \<and> timestamp_of 0 world1 = Some 1000
   \<and> (\<exists>w1. registration_state_notify 0 MM_MODEM_3GPP_REGISTRATION_STATE_DENIED world1 = Inr w1
         \<and> timestamp_of 0 w1 = Some 1000)
   \<and> (\<exists>w' ts'. main_loop False
          (notifications 0 ([(5, MM_MODEM_3GPP_REGISTRATION_STATE_SEARCHING),
                             (7, MM_MODEM_3GPP_REGISTRATION_STATE_HOME)]
                            @ [(9, MM_MODEM_3GPP_REGISTRATION_STATE_IDLE)])) world1 = Inr w'
         \<and> timestamp_of 0 w' = Some ts'
         \<and> (ts' \<noteq> 0 \<longleftrightarrow> stuck_state MM_MODEM_3GPP_REGISTRATION_STATE_IDLE))"
proof -
  have h: "monitored 0 world1" "0 < g_get_monotonic_time world1"
    "timestamp_of 0 world1 = Some 1000"
    by (simp_all add: example_defs model_defs notion_defs Let_def)
  show ?thesis
    using h stuck_timestamp_tracks_last_state[OF h,
        of MM_MODEM_3GPP_REGISTRATION_STATE_DENIED False
          "[(5, MM_MODEM_3GPP_REGISTRATION_STATE_SEARCHING),
            (7, MM_MODEM_3GPP_REGISTRATION_STATE_HOME)]"
          "(9, MM_MODEM_3GPP_REGISTRATION_STATE_IDLE)"]
    by (simp add: stuck_state_def)
qed

lemma g_object_unref_alive:
  assumes "objects w a \<noteq> None"
  shows "\<exists>w'. g_object_unref a w = Inr w' \<and> modems w' = modems w
          \<and> (\<forall>b. b \<noteq> a \<or> 1 < ref_count_of a w
                 \<longrightarrow> get_modem_context b w' = get_modem_context b w
                     \<and> handlers_of b w' = handlers_of b w)"
proof (cases "1 < ref_count_of a w")
  case True
  show ?thesis
    using g_object_unref_keep[OF True] by (simp add: views)
next
  case False
  then have "g_object_unref a w = Inr (g_object_finalize a w)"
    using assms by (intro g_object_unref_last) simp_all
  then show ?thesis
    using False by (simp add: views)
qed

lemma modems_update_views [views]:
  "objects (w\<lparr>modems := ms\<rparr>) = objects w"
  by simp

text \<open>
  C9. A modem object offered to \<open>handle_object_added\<close> that has no modem interface, or
  whose modem interface reports no primary port, or that has no 3GPP interface, leaves
  the whole state as it is: no registry entry, no context, no handler. An object that
  passes the three checks (and is referenced, as a live object is; an entry already
  stored under its path holding a live object) is stored in the registry under its path,
  the other entries being untouched, and is monitored from then on.
\<close>

theorem ineligible_modems_are_ignored:
  assumes "objects w obj = Some ob"
  shows "(modem_iface ob = None \<or> (\<exists>m. modem_iface ob = Some m \<and> primary_port m = None)
            \<or> modem_3gpp_iface ob = None
          \<longrightarrow> handle_object_added obj w = Inr w)
       \<and> ((\<exists>m port. modem_iface ob = Some m \<and> primary_port m = Some port)
            \<and> modem_3gpp_iface ob \<noteq> None \<and> 0 < ref_count ob
            \<and> (\<forall>old. map_of (modems w) (object_path ob) = Some old \<longrightarrow> objects w old \<noteq> None)
          \<longrightarrow> (\<exists>w'. handle_object_added obj w = Inr w'
                 \<and> map_of (modems w') (object_path ob) = Some obj
                 \<and> (\<forall>k. k \<noteq> object_path ob \<longrightarrow> map_of (modems w') k = map_of (modems w) k)
                 \<and> monitored obj w'))"
proof -
  have reject: "handle_object_added obj w = Inr w"
    if "modem_iface ob = None \<or> (\<exists>m. modem_iface ob = Some m \<and> primary_port m = None)
            \<or> modem_3gpp_iface ob = None"
    using that assms by (auto simp: handle_object_added_def split: option.splits)
  have accept: "\<exists>w'. handle_object_added obj w = Inr w'
                 \<and> map_of (modems w') (object_path ob) = Some obj
                 \<and> (\<forall>k. k \<noteq> object_path ob \<longrightarrow> map_of (modems w') k = map_of (modems w) k)
                 \<and> monitored obj w'"
    if ok: "(\<exists>m port. modem_iface ob = Some m \<and> primary_port m = Some port)
            \<and> modem_3gpp_iface ob \<noteq> None \<and> 0 < ref_count ob
            \<and> (\<forall>old. map_of (modems w) (object_path ob) = Some old \<longrightarrow> objects w old \<noteq> None)"
  proof -
    from ok obtain m port g where ifs: "modem_iface ob = Some m" "primary_port m = Some port"
      "modem_3gpp_iface ob = Some g"
      by auto
    have rc: "0 < ref_count_of obj w" and alive: "objects w obj \<noteq> None"
      and reg: "registration_state_of obj w = Some (registration_state g)"
      using ok assms ifs(3) by (simp_all add: ref_count_of_def registration_state_of_def)
    let ?ctx = "modem_context_new ob"
    let ?w1 = "g_object_set_data_full obj ?ctx w"
    let ?h = "fst (g_signal_connect obj ?w1)"
    let ?w2 = "snd (g_signal_connect obj ?w1)"
    let ?c3 = "?ctx\<lparr>reg_state_changed_id := ?h\<rparr>"
    let ?w3 = "set_modem_context obj ?c3 ?w2"
    let ?c4 = "?c3\<lparr>timestamp := spec_stuck_since (registration_state g)
                                 (monotonic_time ?w3) (timestamp ?c3)\<rparr>"
    let ?w4 = "set_modem_context obj ?c4 ?w3"
    let ?w5 = "g_object_ref obj ?w4"
    have def: "handle_object_added obj w =
        bindA (modem_registration_changed obj ?w3)
          (\<lambda>w4. g_hash_table_insert (object_path ob) obj (g_object_ref obj w4))"
      using assms ifs by (simp add: handle_object_added_def Let_def split_beta)
    have c3: "get_modem_context obj ?w3 = Some ?c3"
      "registration_state_of obj ?w3 = Some (registration_state g)"
      using alive reg by (simp_all add: views)
    have changed: "modem_registration_changed obj ?w3 = Inr ?w4"
      by (rule modem_registration_changed_eq[OF c3])
    have w5: "modems ?w5 = modems w" "get_modem_context obj ?w5 = Some ?c4"
      "handlers_of obj ?w5 \<noteq> []" "ref_count_of obj ?w5 = Suc (ref_count_of obj w)"
      "\<And>a. (objects ?w5 a = None) = (objects w a = None)"
      using alive reg by (simp_all add: views)
    have ins: "handle_object_added obj w = g_hash_table_insert (object_path ob) obj ?w5"
      using def changed by simp
    show ?thesis
    proof (cases "map_of (modems w) (object_path ob)")
      case None
      let ?w' = "?w5\<lparr>modems := modems ?w5 @ [(object_path ob, obj)]\<rparr>"
      have "handle_object_added obj w = Inr ?w'"
        using ins None w5(1) by (simp add: g_hash_table_insert_def)
      moreover have "map_of (modems ?w') (object_path ob) = Some obj"
        using None w5(1) by (simp add: map_add_def)
      moreover have "\<forall>k. k \<noteq> object_path ob \<longrightarrow> map_of (modems ?w') k = map_of (modems w) k"
        using w5(1) by (simp add: map_add_def split: option.splits)
      moreover have "monitored obj ?w'"
        using w5(2,3) by (simp add: monitored_def views)
      ultimately show ?thesis by blast
    next
      case (Some old)
      define w6 where "w6 = ?w5\<lparr>modems := AList.update (object_path ob) obj (modems ?w5)\<rparr>"
      have w6: "modems w6 = AList.update (object_path ob) obj (modems w)"
        "get_modem_context obj w6 = Some ?c4" "handlers_of obj w6 \<noteq> []"
        "ref_count_of obj w6 = Suc (ref_count_of obj w)"
        using w5(1,2,3,4) by (simp_all add: w6_def views)
      have old_alive: "objects w6 old \<noteq> None"
        using ok Some w5(5) by (simp add: w6_def)
      from g_object_unref_alive[OF old_alive]
      obtain w' where w': "g_object_unref old w6 = Inr w'" "modems w' = modems w6"
        "\<forall>b. b \<noteq> old \<or> 1 < ref_count_of old w6
                 \<longrightarrow> get_modem_context b w' = get_modem_context b w6
                     \<and> handlers_of b w' = handlers_of b w6"
        by blast
      have keep: "obj \<noteq> old \<or> 1 < ref_count_of old w6"
        using w6(4) rc by auto
      have "handle_object_added obj w = Inr w'"
        using ins Some w5(1) w'(1) by (simp add: g_hash_table_insert_def w6_def)
      moreover have "map_of (modems w') (object_path ob) = Some obj"
        using w'(2) w6(1) by (simp add: update_conv')
      moreover have "\<forall>k. k \<noteq> object_path ob \<longrightarrow> map_of (modems w') k = map_of (modems w) k"
        using w'(2) w6(1) by (simp add: update_conv')
      moreover have "monitored obj w'"
        using w'(3) keep w6(2,3) by (simp add: monitored_def)
      ultimately show ?thesis by blast
    qed
  qed
  show ?thesis using reject accept by blast
qed

lemma modems_schedule:
  "modem_schedule_op_state obj st w = Inr w' \<Longrightarrow> modems w' = modems w"
  by (erule modem_schedule_op_state_Inr) (simp add: views)

lemma modems_retry:
  assumes "modem_schedule_retry_op_state obj w = Inr w'"
  shows "modems w' = modems w"
proof -
  obtain c where c: "get_modem_context obj w = Some c"
    using assms by (auto simp: modem_schedule_retry_op_state_def split: option.splits)
  obtain st where "modem_schedule_op_state obj st
      (set_modem_context obj (c\<lparr>tries := tries c + 1\<rparr>) w) = Inr w'"
    using assms c by (auto simp: modem_schedule_retry_op_state_def Let_def split: if_splits)
  from modems_schedule[OF this] show ?thesis by (simp add: views)
qed

lemma modems_unref: "g_object_unref obj w = Inr w' \<Longrightarrow> modems w' = modems w"
  by (auto simp: g_object_unref_def views split: if_splits)

lemma modems_run:
  assumes "modem_op_state_run obj w = Inr w'"
  shows "modems w' = modems w"
proof -
  obtain c where c: "get_modem_context obj w = Some c"
    using assms by (auto simp: modem_op_state_run_def split: option.splits)
  show ?thesis
  proof (cases "op_state c")
    case MODEM_OP_STATE_NONE
    then show ?thesis
      using assms modem_op_state_run_none[OF c] by (auto simp: views)
  next
    case MODEM_OP_STATE_FINISH
    then show ?thesis
      using assms modem_op_state_run_finish[OF c] by (auto simp: views)
  qed (use assms modem_op_state_run_request[OF c] in \<open>auto simp: views\<close>)
qed

lemma modems_ready_callback:
  assumes "ready_callback ok st obj w = Inr w'"
  shows "modems w' = modems w"
proof -
  obtain w1 where w1: "(if \<not> ok then modem_schedule_retry_op_state obj w
                  else modem_schedule_op_state obj st w) = Inr w1" "g_object_unref obj w1 = Inr w'"
    using assms by (auto simp: ready_callback_def bindA_Inr_iff)
  have "modems w1 = modems w"
    using w1(1) modems_retry modems_schedule by (auto split: if_splits)
  then show ?thesis using modems_unref[OF w1(2)] by simp
qed

lemma modems_call_finished:
  assumes "call_finished n ok w = Inr w'"
  shows "modems w' = modems w"
proof (cases "n \<ge> length (calls w)")
  case True
  then show ?thesis using assms by (simp add: call_finished_def)
next
  case False
  then obtain b st a where
    "ready_callback b st a (w\<lparr>calls := take n (calls w) @ drop (Suc n) (calls w)\<rparr>) = Inr w'"
    using assms
    by (auto simp: call_finished_def Let_def callbacks_ready split: CallKind.splits)
  from modems_ready_callback[OF this] show ?thesis by simp
qed

lemma modems_timeout:
  assumes "timeout_dispatch tag w = Inr w'"
  shows "modems w' = modems w"
proof (cases "map_of (sources w) tag")
  case None
  then show ?thesis using assms by (simp add: timeout_dispatch_def)
next
  case (Some data)
  then obtain w1 where w1: "modem_op_state_run data w = Inr w1" "w' = g_source_remove tag w1"
    using assms by (auto simp: timeout_dispatch_def bindA_Inr_iff)
  show ?thesis using modems_run[OF w1(1)] w1(2) by (simp add: views)
qed

lemma map_of_delete_same: "map_of (AList.delete k al) k = None"
  by (simp add: delete_conv')

text \<open>The object manager announces the removal of a registered modem.\<close>

lemma emit_object_removed_last:
  assumes ob: "objects w obj = Some ob" and reg: "map_of (modems w) (object_path ob) = Some obj"
    and rc: "ref_count ob = 2"
  shows "emit_object_removed obj w =
           Inr (g_object_finalize obj
                  (set_ref_count obj 1 (w\<lparr>modems := AList.delete (object_path ob) (modems w)\<rparr>)))"
proof -
  let ?w0 = "w\<lparr>modems := AList.delete (object_path ob) (modems w)\<rparr>"
  have rc0: "ref_count_of obj ?w0 = 2" "objects ?w0 obj \<noteq> None"
    using ob rc by (simp_all add: ref_count_of_def)
  have first: "handle_object_removed obj w = Inr (set_ref_count obj 1 ?w0)"
    using ob reg g_object_unref_keep[of obj ?w0] rc0
    by (simp add: handle_object_removed_def g_hash_table_remove_def)
  have "g_object_unref obj (set_ref_count obj 1 ?w0) = Inr (g_object_finalize obj (set_ref_count obj 1 ?w0))"
    using rc0(2) by (intro g_object_unref_last) (simp_all add: views)
  then show ?thesis using first by (simp add: emit_object_removed_def)
qed

lemma emit_object_removed_kept:
  assumes ob: "objects w obj = Some ob" and reg: "map_of (modems w) (object_path ob) = Some obj"
    and rc: "2 < ref_count ob"
  shows "emit_object_removed obj w =
           Inr (set_ref_count obj (ref_count ob - 2)
                  (w\<lparr>modems := AList.delete (object_path ob) (modems w)\<rparr>))"
proof -
  let ?w0 = "w\<lparr>modems := AList.delete (object_path ob) (modems w)\<rparr>"
  let ?w1 = "set_ref_count obj (ref_count ob - 1) ?w0"
  have rc0: "ref_count_of obj ?w0 = ref_count ob" "objects ?w0 obj \<noteq> None"
    using ob by (simp_all add: ref_count_of_def)
  have first: "handle_object_removed obj w = Inr ?w1"
    using ob reg g_object_unref_keep[of obj ?w0] rc0 rc
    by (simp add: handle_object_removed_def g_hash_table_remove_def)
  have rc1: "ref_count_of obj ?w1 = ref_count ob - 1"
    using rc0(2) by (simp add: views)
  have "g_object_unref obj ?w1 = Inr (set_ref_count obj (ref_count ob - 1 - 1) ?w1)"
    using g_object_unref_keep[of obj ?w1] rc rc1 by simp
  moreover have "set_ref_count obj (ref_count ob - 1 - 1) ?w1
      = set_ref_count obj (ref_count ob - 2) ?w0"
    by (simp add: set_ref_count_def numeral_2_eq_2 split: option.splits)
  ultimately show ?thesis using first by (simp add: emit_object_removed_def)
qed

lemma timers_of_finalize:
  "timers_of a (g_object_finalize obj w) =
     (case get_modem_context obj w of None \<Rightarrow> timers_of a w
      | Some c \<Rightarrow> if next_id c \<noteq> 0 then removeAll (next_id c) (timers_of a w)
                  else timers_of a w)"
  by (simp add: timers_of_def views timers_of_delete split: option.splits)

text \<open>The request of an operation is answered when the callback holds the last reference.\<close>

lemma call_answered_last_reference:
  assumes ok: "sources_ok w" and rc: "ref_count_of obj w = 1" and cs: "calls w \<noteq> []"
    and c: "get_modem_context obj w = Some c" and nid: "next_id c = 0"
    and tm: "timers_of obj w = []"
    and act: "spec_action (op_state c) = Some (call_kind (last (calls w)))"
    and data: "call_data (last (calls w)) = obj"
  shows "\<exists>w'. call_finished (length (calls w) - 1) answer w = Inr w'
          \<and> objects w' obj = None \<and> timers_of obj w' = [] \<and> modems w' = modems w
          \<and> calls w' = butlast (calls w)
          \<and> (\<forall>i. cancellable c = Some i \<and> i < length (cancellables w)
                \<longrightarrow> g_cancellable_is_cancelled (Some i) w')"
proof -
  let ?w1 = "w\<lparr>calls := butlast (calls w)\<rparr>"
  define b where "b = (answer \<and> \<not> g_cancellable_is_cancelled (call_cancellable (last (calls w))) w)"
  define c' where "c' = (if b then c\<lparr>op_state := spec_next_step (op_state c), next_id := next_source w\<rparr>
                  else c\<lparr>tries := tries c + 1,
                         op_state := (if 3 < tries c + 1 then MODEM_OP_STATE_FINISH else op_state c),
                         next_id := next_source w\<rparr>)"
  define w2 where "w2 = set_modem_context obj c' (snd (g_timeout_add_seconds obj ?w1))"
  have c1: "get_modem_context obj ?w1 = Some c"
    using c by (simp add: views)
  have sched: "(if \<not> b then modem_schedule_retry_op_state obj ?w1
                else modem_schedule_op_state obj (spec_next_step (op_state c)) ?w1) = Inr w2"
    using modem_schedule_retry_op_state_eq[OF c1 nid]
      modem_schedule_op_state_eq[OF c1 nid, of "spec_next_step (op_state c)"]
    by (simp add: c'_def w2_def)
  have alive: "objects w obj \<noteq> None"
    using c by (rule get_modem_context_alive)
  have w2: "objects w2 obj \<noteq> None" "ref_count_of obj w2 \<le> 1"
    "get_modem_context obj w2 = Some c'" "timers_of obj w2 = [next_source w]"
    "modems w2 = modems w" "calls w2 = butlast (calls w)" "cancellables w2 = cancellables w"
    using alive rc tm by (simp_all add: w2_def views)
  have nz: "next_id c' = next_source w" "next_source w \<noteq> 0" "cancellable c' = cancellable c"
    using sources_ok_fresh(2)[OF ok] by (simp_all add: c'_def)
  have unref: "g_object_unref obj w2 = Inr (g_object_finalize obj w2)"
    using w2(1,2) by (rule g_object_unref_last)
  have fin: "call_finished (length (calls w) - 1) answer w
      = ready_callback b (spec_next_step (op_state c)) obj ?w1"
    using call_finished_last[OF cs act, of answer] data by (simp add: b_def)
  have run: "call_finished (length (calls w) - 1) answer w = Inr (g_object_finalize obj w2)"
    using fin sched unref by (simp add: ready_callback_def)
  have "timers_of obj (g_object_finalize obj w2) = []"
    using w2(3,4) nz(1,2) by (simp add: timers_of_finalize)
  moreover have "g_cancellable_is_cancelled (Some i) (g_object_finalize obj w2)"
    if "cancellable c = Some i \<and> i < length (cancellables w)" for i
    using that w2(3,7) nz(3) by (simp add: g_cancellable_is_cancelled_def views)
  ultimately show ?thesis
    using run w2(5,6) by (simp add: views)
qed

text \<open>
  C8, as the code has it. Removing a modem that is in the registry erases its entry.
  When the registry and the announcing object manager hold the only references (no
  request of an operation is in flight), the object is finalized with the removal: its
  operation is cancelled, so that the cancellable it had is cancelled and its step timer
  is no longer pending (dispatching that timer afterwards changes nothing), and its
  notification handlers are gone with it (a later notification changes nothing). When a
  request is in flight, its reference keeps the object: the removal erases the entry and
  leaves the context, the handlers, the timers, the cancellables and the calls as they
  are; once the request is answered, the callback drops the last reference and the object
  is finalized, no timer of it being left pending. Removing a modem whose path is not in
  the registry changes nothing. No timer callback and no completion callback changes the
  registry.
\<close>

theorem removal_cancels_with_last_reference:
  assumes "objects w obj = Some ob"
  shows "(map_of (modems w) (object_path ob) = None \<longrightarrow> handle_object_removed obj w = Inr w)
       \<and> (get_modem_context obj w = Some c
            \<and> map_of (modems w) (object_path ob) = Some obj \<and> ref_count ob = 2
          \<longrightarrow> (\<exists>w'. emit_object_removed obj w = Inr w'
                 \<and> modems w' = AList.delete (object_path ob) (modems w)
                 \<and> map_of (modems w') (object_path ob) = None
                 \<and> objects w' obj = None \<and> handlers_of obj w' = []
                 \<and> registration_state_notify obj st w' = Inr w'
                 \<and> (next_id c \<noteq> 0 \<longrightarrow> map_of (sources w') (next_id c) = None
                       \<and> timeout_dispatch (next_id c) w' = Inr w')
                 \<and> (\<forall>i. cancellable c = Some i \<and> i < length (cancellables w)
                       \<longrightarrow> g_cancellable_is_cancelled (Some i) w')))
       \<and> (map_of (modems w) (object_path ob) = Some obj \<and> 2 < ref_count ob
          \<longrightarrow> (\<exists>w'. emit_object_removed obj w = Inr w'
                 \<and> modems w' = AList.delete (object_path ob) (modems w)
                 \<and> get_modem_context obj w' = get_modem_context obj w
                 \<and> handlers_of obj w' = handlers_of obj w
                 \<and> sources w' = sources w \<and> cancellables w' = cancellables w
                 \<and> calls w' = calls w))
       \<and> (map_of (modems w) (object_path ob) = Some obj \<and> ref_count ob = 3
            \<and> op_calling obj step k w
          \<longrightarrow> (\<exists>w' w''. emit_object_removed obj w = Inr w'
                 \<and> call_finished (length (calls w') - 1) answer w' = Inr w''
                 \<and> objects w'' obj = None \<and> timers_of obj w'' = []
                 \<and> modems w'' = modems w'))
       \<and> (timeout_dispatch tag u = Inr u' \<longrightarrow> modems u' = modems u)
       \<and> (call_finished n ok u = Inr u'' \<longrightarrow> modems u'' = modems u)"
proof -
  have absent: "handle_object_removed obj w = Inr w"
    if "map_of (modems w) (object_path ob) = None"
    using that assms(1) by (simp add: handle_object_removed_def g_hash_table_remove_def)
  have last: "\<exists>w'. emit_object_removed obj w = Inr w'
                 \<and> modems w' = AList.delete (object_path ob) (modems w)
                 \<and> map_of (modems w') (object_path ob) = None
                 \<and> objects w' obj = None \<and> handlers_of obj w' = []
                 \<and> registration_state_notify obj st w' = Inr w'
                 \<and> (next_id c \<noteq> 0 \<longrightarrow> map_of (sources w') (next_id c) = None
                       \<and> timeout_dispatch (next_id c) w' = Inr w')
                 \<and> (\<forall>i. cancellable c = Some i \<and> i < length (cancellables w)
                       \<longrightarrow> g_cancellable_is_cancelled (Some i) w')"
    if h: "get_modem_context obj w = Some c
            \<and> map_of (modems w) (object_path ob) = Some obj \<and> ref_count ob = 2"
  proof -
    have ctx: "get_modem_context obj w = Some c"
      using h by simp
    define w' where "w' = g_object_finalize obj
        (set_ref_count obj 1 (w\<lparr>modems := AList.delete (object_path ob) (modems w)\<rparr>))"
    have run: "emit_object_removed obj w = Inr w'"
      using emit_object_removed_last[OF assms(1)] h by (simp add: w'_def)
    have v: "modems w' = AList.delete (object_path ob) (modems w)" "objects w' obj = None"
      "handlers_of obj w' = []"
      "sources w' = (if next_id c \<noteq> 0 then AList.delete (next_id c) (sources w) else sources w)"
      "cancellables w' = (case cancellable c of None \<Rightarrow> cancellables w
                          | Some i \<Rightarrow> (cancellables w)[i := True])"
      using ctx by (simp_all add: w'_def views split: option.splits)
    have gone: "map_of (sources w') (next_id c) = None" if "next_id c \<noteq> 0"
      using that v(4) by (simp add: map_of_delete_same)
    have notify: "registration_state_notify obj st w' = Inr w'"
      using v(2,3) by (simp add: registration_state_notify_def set_registration_state_def)
    have canc: "g_cancellable_is_cancelled (Some i) w'"
      if "cancellable c = Some i \<and> i < length (cancellables w)" for i
      using that v(5) by (simp add: g_cancellable_is_cancelled_def)
    show ?thesis
      using run v(1,2,3) gone notify canc
      by (auto simp: map_of_delete_same timeout_dispatch_def)
  qed
  have kept: "\<exists>w'. emit_object_removed obj w = Inr w'
                 \<and> modems w' = AList.delete (object_path ob) (modems w)
                 \<and> get_modem_context obj w' = get_modem_context obj w
                 \<and> handlers_of obj w' = handlers_of obj w
                 \<and> sources w' = sources w \<and> cancellables w' = cancellables w
                 \<and> calls w' = calls w"
    if h: "map_of (modems w) (object_path ob) = Some obj \<and> 2 < ref_count ob"
    using emit_object_removed_kept[OF assms(1)] h
    by (simp add: views)
  have deferred: "\<exists>w' w''. emit_object_removed obj w = Inr w'
                 \<and> call_finished (length (calls w') - 1) answer w' = Inr w''
                 \<and> objects w'' obj = None \<and> timers_of obj w'' = []
                 \<and> modems w'' = modems w'"
    if h: "map_of (modems w) (object_path ob) = Some obj \<and> ref_count ob = 3
            \<and> op_calling obj step k w"
  proof -
    define w' where "w' = set_ref_count obj (ref_count ob - 2)
                  (w\<lparr>modems := AList.delete (object_path ob) (modems w)\<rparr>)"
    have run: "emit_object_removed obj w = Inr w'"
      using emit_object_removed_kept[OF assms(1)] h by (simp add: w'_def)
    from h obtain c0 where c0: "get_modem_context obj w = Some c0" "op_state c0 = step"
      "tries c0 = k" "next_id c0 = 0" "timers_of obj w = []"
      "\<not> g_cancellable_is_cancelled (cancellable c0) w" "sources_ok w" "1 < ref_count_of obj w"
      "objects w obj \<noteq> None" "calls w \<noteq> []"
      "spec_action step = Some (call_kind (last (calls w)))"
      "call_cancellable (last (calls w)) = cancellable c0" "call_data (last (calls w)) = obj"
      by (auto elim: op_callingD)
    have v: "sources_ok w'" "ref_count_of obj w' = 1" "calls w' \<noteq> []"
      "get_modem_context obj w' = Some c0" "timers_of obj w' = []"
      "spec_action (op_state c0) = Some (call_kind (last (calls w')))"
      "call_data (last (calls w')) = obj"
      using c0 h by (simp_all add: w'_def views)
    from call_answered_last_reference[OF v(1,2,3,4) c0(4) v(5,6,7), of answer] run
    show ?thesis by blast
  qed
  show ?thesis
    using absent last kept deferred
      modems_timeout[of tag u u'] modems_call_finished[of n ok u u'']
    by blast
qed

theorem ineligible_modems_are_ignored_witness:
  "objects (world_with (modem0\<lparr>modem_iface := None\<rparr>)) 0 = Some (modem0\<lparr>modem_iface := None\<rparr>)
   \<and> modem_iface (modem0\<lparr>modem_iface := None\<rparr>) = None
   \<and> handle_object_added 0 (world_with (modem0\<lparr>modem_iface := None\<rparr>))
       = Inr (world_with (modem0\<lparr>modem_iface := None\<rparr>))
   \<and> objects (world_with (modem0\<lparr>modem_iface := Some \<lparr>primary_port = None\<rparr>\<rparr>)) 0
       = Some (modem0\<lparr>modem_iface := Some \<lparr>primary_port = None\<rparr>\<rparr>)
   \<and> handle_object_added 0 (world_with (modem0\<lparr>modem_iface := Some \<lparr>primary_port = None\<rparr>\<rparr>))
       = Inr (world_with (modem0\<lparr>modem_iface := Some \<lparr>primary_port = None\<rparr>\<rparr>))
   \<and> objects (world_with (modem0\<lparr>modem_3gpp_iface := None\<rparr>)) 0
       = Some (modem0\<lparr>modem_3gpp_iface := None\<rparr>)
   \<and> handle_object_added 0 (world_with (modem0\<lparr>modem_3gpp_iface := None\<rparr>))
       = Inr (world_with (modem0\<lparr>modem_3gpp_iface := None\<rparr>))
   \<and> objects (world_with modem0) 0 = Some modem0
   \<and> modem_iface modem0 = Some \<lparr>primary_port = Some ''cdc-wdm0''\<rparr>
   \<and> modem_3gpp_iface modem0 \<noteq> None \<and> 0 < ref_count modem0
   \<and> map_of (modems (world_with modem0)) (object_path modem0) = None
   \<and> (\<exists>w'. handle_object_added 0 (world_with modem0) = Inr w'
         \<and> map_of (modems w') (object_path modem0) = Some 0 \<and> monitored 0 w')"
proof -
  let ?a = "modem0\<lparr>modem_iface := None\<rparr>"
  let ?b = "modem0\<lparr>modem_iface := Some \<lparr>primary_port = None\<rparr>\<rparr>"
  let ?c = "modem0\<lparr>modem_3gpp_iface := None\<rparr>"
  have a: "objects (world_with ?a) 0 = Some ?a" "modem_iface ?a = None"
    by (simp_all add: world_with_def world0_def)
  have b: "objects (world_with ?b) 0 = Some ?b"
    "\<exists>m. modem_iface ?b = Some m \<and> primary_port m = None"
    by (simp_all add: world_with_def world0_def)
  have c: "objects (world_with ?c) 0 = Some ?c" "modem_3gpp_iface ?c = None"
    by (simp_all add: world_with_def world0_def)
  have d: "objects (world_with modem0) 0 = Some modem0"
    "modem_iface modem0 = Some \<lparr>primary_port = Some ''cdc-wdm0''\<rparr>"
    "modem_3gpp_iface modem0 \<noteq> None" "0 < ref_count modem0"
    "map_of (modems (world_with modem0)) (object_path modem0) = None"
    by (simp_all add: world_with_def world0_def modem0_def)
  have d': "(\<exists>m port. modem_iface modem0 = Some m \<and> primary_port m = Some port)
            \<and> modem_3gpp_iface modem0 \<noteq> None \<and> 0 < ref_count modem0
            \<and> (\<forall>old. map_of (modems (world_with modem0)) (object_path modem0) = Some old
                 \<longrightarrow> objects (world_with modem0) old \<noteq> None)"
    using d by simp
  show ?thesis
    using a b c d d'
      ineligible_modems_are_ignored[OF a(1)] ineligible_modems_are_ignored[OF b(1)]
      ineligible_modems_are_ignored[OF c(1)] ineligible_modems_are_ignored[OF d(1)]
    by blast
qed

text \<open>
  C8 as stated fails while a request is in flight: the modem is added, a sweep kicks it,
  the timer of the disable step fires and sends the request, and then the modem is
  removed. The entry is erased, but the context is still there with its operation at the
  disable step, its handler is still connected, the request is still in flight and its
  cancellable is not cancelled.
\<close>

theorem removal_mid_call_counterexample:
  "outcome_view 0 (main_loop False [ObjectAdded 0, Elapse 605000001, ResetPoll, Timeout 1,
                                    ObjectRemoved 0] world0)
   = Inr ([], 1,
          Some \<lparr>path = ''/org/freedesktop/ModemManager1/Modem/0'', reg_state_changed_id = 1,
                timestamp = 1000, cancellable = Some 0, op_state = MODEM_OP_STATE_DISABLE,
                next_id = 0, tries = 0\<rparr>,
          [1], [],
          [\<lparr>call_kind = CALL_DISABLE, call_cancellable = Some 0, call_data = 0\<rparr>],
          [False])"
  by (simp add: model_defs Let_def)

theorem removal_cancels_with_last_reference_witness:
  "map_of (modems world2) (object_path (the (objects world2 0))) = Some 0
   \<and> ref_count (the (objects world2 0)) = 2
   \<and> next_id (the (get_modem_context 0 world2)) = 1
   \<and> cancellable (the (get_modem_context 0 world2)) = Some 0
   \<and> (\<exists>w'. emit_object_removed 0 world2 = Inr w' \<and> modems w' = []
         \<and> objects w' 0 = None \<and> handlers_of 0 w' = []
         \<and> registration_state_notify 0 MM_MODEM_3GPP_REGISTRATION_STATE_HOME w' = Inr w'
         \<and> map_of (sources w') 1 = None \<and> timeout_dispatch 1 w' = Inr w'
         \<and> g_cancellable_is_cancelled (Some 0) w')
   \<and> map_of (modems (world_run [Elapse 605000001, ResetPoll, Timeout 1]))
        (object_path (the (objects (world_run [Elapse 605000001, ResetPoll, Timeout 1]) 0)))
       = Some 0
   \<and> 2 < ref_count (the (objects (world_run [Elapse 605000001, ResetPoll, Timeout 1]) 0))
   \<and> (\<exists>w'. emit_object_removed 0 (world_run [Elapse 605000001, ResetPoll, Timeout 1]) = Inr w'
         \<and> modems w' = []
         \<and> get_modem_context 0 w'
             = get_modem_context 0 (world_run [Elapse 605000001, ResetPoll, Timeout 1])
         \<and> handlers_of 0 w' = [1] \<and> cancellables w' = [False])
   \<and> ref_count (the (objects (world_run [Elapse 605000001, ResetPoll, Timeout 1]) 0)) = 3
   \<and> op_calling 0 MODEM_OP_STATE_DISABLE 0 (world_run [Elapse 605000001, ResetPoll, Timeout 1])
   \<and> (\<exists>w' w''. emit_object_removed 0 (world_run [Elapse 605000001, ResetPoll, Timeout 1])
                    = Inr w'
         \<and> call_finished (length (calls w') - 1) True w' = Inr w''
         \<and> objects w'' 0 = None \<and> timers_of 0 w'' = [])
   \<and> map_of (modems (world_run [Elapse 605000001, ResetPoll, Timeout 1, ObjectRemoved 0]))
        (object_path (the (objects
           (world_run [Elapse 605000001, ResetPoll, Timeout 1, ObjectRemoved 0]) 0))) = None
   \<and> handle_object_removed 0 (world_run [Elapse 605000001, ResetPoll, Timeout 1, ObjectRemoved 0])
       = Inr (world_run [Elapse 605000001, ResetPoll, Timeout 1, ObjectRemoved 0])
   \<and> objects world0 0 = Some modem0 \<and> get_modem_context 0 world0 = None
   \<and> map_of (modems world0) (object_path modem0) = None
   \<and> handle_object_removed 0 world0 = Inr world0
   \<and> timeout_dispatch 1 world2 = Inr (world_run [Elapse 605000001, ResetPoll, Timeout 1])
   \<and> modems (world_run [Elapse 605000001, ResetPoll, Timeout 1]) = modems world2
   \<and> call_finished 0 True (world_run [Elapse 605000001, ResetPoll, Timeout 1])
       = Inr (world_run [Elapse 605000001, ResetPoll, Timeout 1, CallFinished 0 True])
   \<and> modems (world_run [Elapse 605000001, ResetPoll, Timeout 1, CallFinished 0 True])
       = modems (world_run [Elapse 605000001, ResetPoll, Timeout 1])"
proof -
  let ?w3 = "world_run [Elapse 605000001, ResetPoll, Timeout 1]"
  let ?w4 = "world_run [Elapse 605000001, ResetPoll, Timeout 1, ObjectRemoved 0]"
  let ?w5 = "world_run [Elapse 605000001, ResetPoll, Timeout 1, CallFinished 0 True]"
  have a: "objects world2 0 = Some (the (objects world2 0))"
    "get_modem_context 0 world2 = Some (the (get_modem_context 0 world2))"
    "map_of (modems world2) (object_path (the (objects world2 0))) = Some 0"
    "ref_count (the (objects world2 0)) = 2"
    "next_id (the (get_modem_context 0 world2)) = 1"
    "cancellable (the (get_modem_context 0 world2)) = Some 0"
    "length (cancellables world2) = 1"
    "modems world2 = [(''/org/freedesktop/ModemManager1/Modem/0'', 0)]"
    by (simp_all add: example_defs model_defs Let_def)
  have b: "objects ?w3 0 = Some (the (objects ?w3 0))"
    "get_modem_context 0 ?w3 = Some (the (get_modem_context 0 ?w3))"
    "map_of (modems ?w3) (object_path (the (objects ?w3 0))) = Some 0"
    "2 < ref_count (the (objects ?w3 0))"
    "handlers_of 0 ?w3 = [1]" "cancellables ?w3 = [False]"
    "modems ?w3 = [(''/org/freedesktop/ModemManager1/Modem/0'', 0)]"
    by (simp_all add: example_defs model_defs Let_def)
  have c: "objects ?w4 0 = Some (the (objects ?w4 0))"
    "get_modem_context 0 ?w4 = Some (the (get_modem_context 0 ?w4))"
    "map_of (modems ?w4) (object_path (the (objects ?w4 0))) = None"
    by (simp_all add: example_defs model_defs Let_def)
  have d: "timeout_dispatch 1 world2 = Inr ?w3"
    by (simp add: example_defs model_defs Let_def)
  have e: "call_finished 0 True ?w3 = Inr ?w5"
    by (simp add: example_defs model_defs Let_def)
  have z: "objects world0 0 = Some modem0" "get_modem_context 0 world0 = None"
    "map_of (modems world0) (object_path modem0) = None"
    by (simp_all add: model_defs)
  have b': "ref_count (the (objects ?w3 0)) = 3" "op_calling 0 MODEM_OP_STATE_DISABLE 0 ?w3"
    by (simp_all add: example_defs model_defs notion_defs Let_def)
  have p2: "object_path (the (objects world2 0)) = ''/org/freedesktop/ModemManager1/Modem/0''"
    "next_id (the (get_modem_context 0 world2)) \<noteq> 0"
    "cancellable (the (get_modem_context 0 world2)) = Some 0 \<and> 0 < length (cancellables world2)"
    by (simp_all add: example_defs model_defs Let_def)
  have p3: "object_path (the (objects ?w3 0)) = ''/org/freedesktop/ModemManager1/Modem/0''"
    by (simp add: example_defs model_defs Let_def)
  note absent = removal_cancels_with_last_reference[THEN conjunct1, THEN mp]
  note last = removal_cancels_with_last_reference[THEN conjunct2, THEN conjunct1, THEN mp]
  note kept = removal_cancels_with_last_reference[THEN conjunct2, THEN conjunct2,
      THEN conjunct1, THEN mp]
  note deferred = removal_cancels_with_last_reference[THEN conjunct2, THEN conjunct2,
      THEN conjunct2, THEN conjunct1, THEN mp]
  note timer = removal_cancels_with_last_reference[THEN conjunct2, THEN conjunct2,
      THEN conjunct2, THEN conjunct2, THEN conjunct1, THEN mp]
  note answered = removal_cancels_with_last_reference[THEN conjunct2, THEN conjunct2,
      THEN conjunct2, THEN conjunct2, THEN conjunct2, THEN mp]
  have r0: "handle_object_removed 0 world0 = Inr world0"
    by (rule absent[OF z(1) z(3)])
  have r4: "handle_object_removed 0 ?w4 = Inr ?w4"
    by (rule absent[OF c(1) c(3)])
  have r5: "modems ?w3 = modems world2" "modems ?w5 = modems ?w3"
    by (rule timer[OF a(1) d], rule answered[OF a(1) e])
  from last[OF a(1) conjI[OF a(2) conjI[OF a(3) a(4)]],
      of MM_MODEM_3GPP_REGISTRATION_STATE_HOME]
  obtain w' where w': "emit_object_removed 0 world2 = Inr w'"
    "modems w' = AList.delete (object_path (the (objects world2 0))) (modems world2)"
    "objects w' 0 = None" "handlers_of 0 w' = []"
    "registration_state_notify 0 MM_MODEM_3GPP_REGISTRATION_STATE_HOME w' = Inr w'"
    "next_id (the (get_modem_context 0 world2)) \<noteq> 0 \<longrightarrow>
       map_of (sources w') (next_id (the (get_modem_context 0 world2))) = None
       \<and> timeout_dispatch (next_id (the (get_modem_context 0 world2))) w' = Inr w'"
    "\<forall>i. cancellable (the (get_modem_context 0 world2)) = Some i
          \<and> i < length (cancellables world2) \<longrightarrow> g_cancellable_is_cancelled (Some i) w'"
    by (elim exE conjE)
  have m2: "modems w' = []"
    using w'(2) a(8) p2(1) by (simp add: AList.delete_eq)
  have s2: "map_of (sources w') 1 = None" "timeout_dispatch 1 w' = Inr w'"
    using w'(6) p2(2) a(5) by simp_all
  have c2: "g_cancellable_is_cancelled (Some 0) w'"
    using w'(7) p2(3) by simp
  have r2: "\<exists>w'. emit_object_removed 0 world2 = Inr w' \<and> modems w' = []
         \<and> objects w' 0 = None \<and> handlers_of 0 w' = []
         \<and> registration_state_notify 0 MM_MODEM_3GPP_REGISTRATION_STATE_HOME w' = Inr w'
         \<and> map_of (sources w') 1 = None \<and> timeout_dispatch 1 w' = Inr w'
         \<and> g_cancellable_is_cancelled (Some 0) w'"
    by (intro exI[of _ w'] conjI; rule w'(1,3,4,5) m2 s2 c2)
  from kept[OF b(1) conjI[OF b(3) b(4)]]
  obtain w'' where w'': "emit_object_removed 0 ?w3 = Inr w''"
    "modems w'' = AList.delete (object_path (the (objects ?w3 0))) (modems ?w3)"
    "get_modem_context 0 w'' = get_modem_context 0 ?w3"
    "handlers_of 0 w'' = handlers_of 0 ?w3" "cancellables w'' = cancellables ?w3"
    by (elim exE conjE)
  have m3: "modems w'' = []"
    using w''(2) b(7) p3 by (simp add: AList.delete_eq)
  have h3: "handlers_of 0 w'' = [1]" "cancellables w'' = [False]"
    using w''(4,5) b(5,6) by simp_all
  have r3: "\<exists>w'. emit_object_removed 0 ?w3 = Inr w' \<and> modems w' = []
         \<and> get_modem_context 0 w' = get_modem_context 0 ?w3
         \<and> handlers_of 0 w' = [1] \<and> cancellables w' = [False]"
    by (intro exI[of _ w''] conjI; rule w''(1,3) m3 h3)
  from deferred[OF b(1) conjI[OF b(3) conjI[OF b'(1) b'(2)]], of True]
  obtain v v' where v: "emit_object_removed 0 ?w3 = Inr v"
    "call_finished (length (calls v) - 1) True v = Inr v'"
    "objects v' 0 = None" "timers_of 0 v' = []"
    by (elim exE conjE)
  have r3': "\<exists>w' w''. emit_object_removed 0 ?w3 = Inr w'
         \<and> call_finished (length (calls w') - 1) True w' = Inr w''
         \<and> objects w'' 0 = None \<and> timers_of 0 w'' = []"
    by (intro exI[of _ v] exI[of _ v'] conjI; rule v)
  show ?thesis
    by (intro conjI; rule a(3,4,5,6) b(3,4) b' c(3) d e r0 r2 r3 r3' r4 r5 z)
qed

text \<open>
  C3 against the code. A sweep kicks the modem, the timer of the disable step sends the
  request, and the next sweep kicks the modem again while the request is in flight: the
  request's cancellable is cancelled and a new operation waits for its timer. The
  completion callback of the cancelled request then does not return without effect: it
  takes the failure path, and the assertion of \<open>modem_schedule_op_state\<close> aborts the
  process. If the timer of the new operation fires first, the callback counts a retry
  against the new operation and arms another timer.
\<close>

theorem cancelled_call_callback_acts:
  "outcome_view 0 (main_loop False [ObjectAdded 0, Elapse 605000001, ResetPoll, Timeout 1,
                                    Elapse 300000000, ResetPoll] world0)
     = Inr ([(''/org/freedesktop/ModemManager1/Modem/0'', 0)], 3,
            Some \<lparr>path = ''/org/freedesktop/ModemManager1/Modem/0'', reg_state_changed_id = 1,
                  timestamp = 1000, cancellable = Some 1, op_state = MODEM_OP_STATE_DISABLE,
                  next_id = 2, tries = 0\<rparr>,
            [1], [(2, 0)],
            [\<lparr>call_kind = CALL_DISABLE, call_cancellable = Some 0, call_data = 0\<rparr>],
            [True, False])
   \<and> outcome_view 0 (main_loop False [ObjectAdded 0, Elapse 605000001, ResetPoll, Timeout 1,
                                      Elapse 300000000, ResetPoll, CallFinished 0 True] world0)
     = Inl AssertionFailed
   \<and> outcome_view 0 (main_loop False [ObjectAdded 0, Elapse 605000001, ResetPoll, Timeout 1,
                                      Elapse 300000000, ResetPoll, Timeout 2,
                                      CallFinished 0 True] world0)
     = Inr ([(''/org/freedesktop/ModemManager1/Modem/0'', 0)], 3,
            Some \<lparr>path = ''/org/freedesktop/ModemManager1/Modem/0'', reg_state_changed_id = 1,
                  timestamp = 1000, cancellable = Some 1, op_state = MODEM_OP_STATE_DISABLE,
                  next_id = 3, tries = 1\<rparr>,
            [1], [(3, 0)],
            [\<lparr>call_kind = CALL_DISABLE, call_cancellable = Some 1, call_data = 0\<rparr>],
            [True, False])"
  by (simp add: model_defs Let_def)

text \<open>
  C7 against the code. The assertion of \<open>modem_schedule_op_state\<close> fails on a reachable
  call: in the production build when a sweep kicks a modem whose request is still in
  flight and that request then completes, whatever ModemManager answers; in the DEBUG
  build, where every sweep kicks, as soon as a request outlasts the five seconds between
  the timer that sent it and the next sweep.
\<close>

theorem schedule_assertion_fails:
  "main_loop False [ObjectAdded 0, Elapse 605000001, ResetPoll, Elapse 10000000, Timeout 1,
                    Elapse 290000000, ResetPoll, CallFinished 0 False] world0
     = Inl AssertionFailed
   \<and> main_loop False [ObjectAdded 0, Elapse 605000001, ResetPoll, Elapse 10000000, Timeout 1,
                      Elapse 290000000, ResetPoll, CallFinished 0 True] world0
     = Inl AssertionFailed
   \<and> main_loop True [ObjectAdded 0, Elapse 15000000, ResetPoll, Elapse 10000000, Timeout 1,
                     Elapse 5000000, ResetPoll, CallFinished 0 True] world0
     = Inl AssertionFailed"
  by (simp add: model_defs Let_def)

end
